theory Spec2Isabelle
  imports Complex_Main "HOL-Library.DAList"
begin

section \<open>Data model\<close>

text \<open>
  The program is a declarative widget layer on top of an immediate-mode renderer
  (\<^verbatim>\<open>src/main.go\<close>).  Its process-wide variables (\<^verbatim>\<open>GlobalContext\<close>,
  \<^verbatim>\<open>currentThemeObject\<close>, \<^verbatim>\<open>globalStatus\<close>), the Go heap objects that the
  state map points to, and the part of the renderer that the code talks to (the two
  style stacks and the frame clock) are collected in one record \<open>world\<close>; every method
  of the source becomes a function that takes the world and returns the new one.

  \<^item> The \<^verbatim>\<open>float64\<close> times are values of a type \<open>'t\<close> that is a parameter of the
    model, with the subtraction, the zero and the order the code uses; nothing is assumed
    about them, so what is proved of the timer and of the message log holds for the
    arithmetic of \<^verbatim>\<open>float64\<close> as it does for the real numbers.  The instances
    are evaluated with real numbers.  The \<^verbatim>\<open>float32\<close> colours and style variables are
    only stored and passed on; they are modelled as \<open>real\<close>.
  \<^item> Go's \<^verbatim>\<open>int\<close> is modelled as \<open>int\<close>; the only arithmetic on it is the guarded
    \<^verbatim>\<open>value--\<close> and \<^verbatim>\<open>value++\<close> of the counter, which cannot leave the 64-bit range
    (lemma \<open>Counter_Build_int64\<close>).  The \<^verbatim>\<open>int32\<close> conversions of the style
    engine are written out with their wrap-around.
  \<^item> Names are those of the source, except \<open>val\<close> for the field \<^verbatim>\<open>value\<close>, and
    \<open>cid\<close>, \<open>tid\<close>, \<open>sid\<close>, \<open>clabel\<close>, \<open>tlabel\<close> for the fields \<^verbatim>\<open>id\<close> and
    \<^verbatim>\<open>label\<close> of the three descriptors; a method \<^verbatim>\<open>T.m\<close> is \<open>T_m\<close> where the name
    \<open>m\<close> alone would clash.
  \<^item> A Go \<^verbatim>\<open>map[int]T\<close> that the code ranges over is a list of pairs with distinct
    keys (type \<open>alist\<close>); the order of the list is the order in which this \<^verbatim>\<open>range\<close>
    visits the entries, which Go leaves unspecified, so every theorem holds for every order.
\<close>

record Vec4 =
  X :: real
  Y :: real
  Z :: real
  W :: real

text \<open>
  The values of \<^verbatim>\<open>stateMap map[string]interface{}\<close> are pointers whose dynamic type is
  \<^verbatim>\<open>*counterState\<close>, \<^verbatim>\<open>*timerState\<close> or \<^verbatim>\<open>*statusState\<close>: a tagged address.
\<close>

datatype ref = CounterRef nat | TimerRef nat | StatusRef nat

record Context =
  widgetCounter :: int
  stateMap :: "string \<rightharpoonup> ref"

record counterState =
  val :: int
  step :: int

record 't timerState =
  startTime :: 't
  elapsedTime :: 't
  isRunning :: bool
  isPaused :: bool

record 't statusState =
  messages :: "string list"
  timestamps :: "'t list"
  maxMessages :: int

record Theme =
  name :: string
  colors :: "(int, Vec4) alist"
  vars :: "(int, real) alist"

record StatusDisplayWidget =
  sid :: string
  height :: real

text \<open>
  \<open>counterObjs\<close>, \<open>timerObjs\<close> and \<open>statusObjs\<close> are the heap objects of the three
  state-record types, by address; \<open>nextObj\<close> is the first address that \<^verbatim>\<open>&T{...}\<close> has
  not handed out yet.  \<open>now\<close> is what \<^verbatim>\<open>imgui.Time()\<close> returns.  \<open>host\<close> is whatever
  else the application's callbacks read and write.
\<close>

record ('t, 'h) world =
  GlobalContext :: Context
  counterObjs :: "nat \<Rightarrow> counterState"
  timerObjs :: "nat \<Rightarrow> 't timerState"
  statusObjs :: "nat \<Rightarrow> 't statusState"
  nextObj :: nat
  globalStatus :: "StatusDisplayWidget option"
  currentThemeObject :: "Theme option"
  colorStack :: "(int \<times> Vec4) list"
  varStack :: "(int \<times> real) list"
  now :: 't
  host :: 'h

datatype panic = NilDereference | IndexOutOfRange

definition lookupState :: "('t, 'h) world \<Rightarrow> string \<rightharpoonup> ref" where
  "lookupState s = stateMap (GlobalContext s)"

definition storeState :: "string \<Rightarrow> ref \<Rightarrow> ('t, 'h) world \<Rightarrow> ('t, 'h) world" where
  "storeState key r s =
     s\<lparr>GlobalContext := (GlobalContext s)\<lparr>stateMap := (stateMap (GlobalContext s))(key \<mapsto> r)\<rparr>\<rparr>"

text \<open>
  Go's conversion \<^verbatim>\<open>int32(n)\<close> of an \<^verbatim>\<open>int\<close>, and the \<^verbatim>\<open>int32\<close> increment: the
  value modulo \<open>2^32\<close>, read as a signed number.  The renderer's property types
  \<^verbatim>\<open>imgui.Col\<close> and \<^verbatim>\<open>imgui.StyleVar\<close> are 32-bit as well.
\<close>

definition int32 :: "int \<Rightarrow> int" where
  "int32 n = (n + 2147483648) mod 4294967296 - 2147483648"

section \<open>The style stacks of the renderer\<close>

text \<open>
  Modelled from the spec: the renderer's \<^verbatim>\<open>PushStyleColorVec4\<close>,
  \<^verbatim>\<open>PushStyleVarFloat\<close>, \<^verbatim>\<open>PopStyleColorV\<close> and \<^verbatim>\<open>PopStyleVarV\<close> are not part of
  the repository.  Following section 4.4 of the specification there are two stacks, one
  of colour entries and one of numeric-variable entries; a push puts one
  (property, value) entry on top, a pop of \<open>count\<close> removes the \<open>count\<close> topmost
  entries, and the effective value of a property is its most recently pushed entry
  that is still on the stack (\<open>None\<close>: the renderer's base style).
\<close>

definition PushStyleColorVec4 :: "int \<Rightarrow> Vec4 \<Rightarrow> ('t, 'h) world \<Rightarrow> ('t, 'h) world" where
  "PushStyleColorVec4 idx col s = s\<lparr>colorStack := (idx, col) # colorStack s\<rparr>"

definition PushStyleVarFloat :: "int \<Rightarrow> real \<Rightarrow> ('t, 'h) world \<Rightarrow> ('t, 'h) world" where
  "PushStyleVarFloat idx v s = s\<lparr>varStack := (idx, v) # varStack s\<rparr>"

definition PopStyleColorV :: "int \<Rightarrow> ('t, 'h) world \<Rightarrow> ('t, 'h) world" where
  "PopStyleColorV count s = s\<lparr>colorStack := drop (nat count) (colorStack s)\<rparr>"

definition PopStyleVarV :: "int \<Rightarrow> ('t, 'h) world \<Rightarrow> ('t, 'h) world" where
  "PopStyleVarV count s = s\<lparr>varStack := drop (nat count) (varStack s)\<rparr>"

definition effectiveColor :: "('t, 'h) world \<Rightarrow> int \<Rightarrow> Vec4 option" where
  "effectiveColor s idx = map_of (colorStack s) idx"

definition effectiveVar :: "('t, 'h) world \<Rightarrow> int \<Rightarrow> real option" where
  "effectiveVar s idx = map_of (varStack s) idx"

section \<open>The composition tree\<close>

text \<open>
  \<^verbatim>\<open>Widget\<close> is an interface with the one method \<^verbatim>\<open>Build()\<close>.  The containers and
  the style setter are modelled by their structure; \<open>Leaf f\<close> is any other
  implementation, \<open>f\<close> being the effect of its \<^verbatim>\<open>Build\<close> on the world (it may panic).
  A child is \<open>None\<close> when the Go value is \<^verbatim>\<open>nil\<close>.  The boolean of \<open>Row\<close> is what
  \<^verbatim>\<open>imgui.BeginTableV\<close> answers in this frame.  Draw calls change nothing that is
  modelled and are left out.
\<close>

datatype ('t, 'h) Widget =
    Leaf "('t, 'h) world \<Rightarrow> panic + ('t, 'h) world"
  | Layout "('t, 'h) Widget option list"
  | SingleWindow "('t, 'h) Widget option list"
  | Column "('t, 'h) Widget option list"
  | Row bool "('t, 'h) Widget option list"
  | StyleSetter "(int, Vec4) alist" "(int, real) alist" "('t, 'h) Widget option list"

definition pushColors :: "(int \<times> Vec4) list \<Rightarrow> ('t, 'h) world \<Rightarrow> ('t, 'h) world" where
  "pushColors entries s =
     fold (\<lambda>(colorID, color). PushStyleColorVec4 (int32 colorID) color) entries s"

definition pushVars :: "(int \<times> real) list \<Rightarrow> ('t, 'h) world \<Rightarrow> ('t, 'h) world" where
  "pushVars entries s =
     fold (\<lambda>(varID, v). PushStyleVarFloat (int32 varID) v) entries s"

text \<open>
  \<open>build_each\<close> is the loop \<^verbatim>\<open>for _, widget := range ws { if widget != nil { widget.Build() } }\<close>
  of \<^verbatim>\<open>Layout\<close>, \<^verbatim>\<open>SingleWindowWidget\<close>, \<^verbatim>\<open>ColumnWidget\<close> and \<^verbatim>\<open>StyleSetter\<close>;
  \<open>build_columns\<close> is the loop of \<^verbatim>\<open>RowWidget\<close>, which calls \<^verbatim>\<open>widget.Build()\<close>
  without the \<^verbatim>\<open>nil\<close> test.
\<close>

fun Build :: "('t, 'h) Widget \<Rightarrow> ('t, 'h) world \<Rightarrow> panic + ('t, 'h) world"
  and build_each :: "('t, 'h) Widget option list \<Rightarrow> ('t, 'h) world \<Rightarrow> panic + ('t, 'h) world"
  and build_columns :: "('t, 'h) Widget option list \<Rightarrow> ('t, 'h) world \<Rightarrow> panic + ('t, 'h) world"
where
  "Build (Leaf f) s = f s"
| "Build (Layout ws) s = build_each ws s"
| "Build (SingleWindow ws) s = build_each ws s"
| "Build (Column ws) s = build_each ws s"
| "Build (Row table_open ws) s =
     (if length ws = 0 then Inr s
      else if table_open then build_columns ws s
      else Inr s)"
| "Build (StyleSetter cs vs ws) s =
     (let colorCount = int32 (int (length (DAList.impl_of cs)));
          varCount = int32 (int (length (DAList.impl_of vs)));
          s1 = pushColors (DAList.impl_of cs) s;
          s2 = pushVars (DAList.impl_of vs) s1
      in case build_each ws s2 of
           Inl e \<Rightarrow> Inl e
         | Inr s3 \<Rightarrow>
             (let s4 = (if varCount > 0 then PopStyleVarV varCount s3 else s3)
              in Inr (if colorCount > 0 then PopStyleColorV colorCount s4 else s4)))"
| "build_each [] s = Inr s"
| "build_each (None # ws) s = build_each ws s"
| "build_each (Some w # ws) s =
     (case Build w s of Inl e \<Rightarrow> Inl e | Inr s' \<Rightarrow> build_each ws s')"
| "build_columns [] s = Inr s"
| "build_columns (None # ws) s = Inl NilDereference"
| "build_columns (Some w # ws) s =
     (case Build w s of Inl e \<Rightarrow> Inl e | Inr s' \<Rightarrow> build_columns ws s')"

section \<open>The frame of the run loop\<close>

text \<open>
  \<^verbatim>\<open>MasterWindow.Run\<close> hands the renderer a closure that the renderer calls once per
  frame; \<open>Run_frame\<close> is that closure.  The two counters are \<^verbatim>\<open>int32\<close> variables
  that are incremented once per push.
\<close>

definition pushThemeColors :: "(int \<times> Vec4) list \<Rightarrow> int \<times> ('t, 'h) world \<Rightarrow> int \<times> ('t, 'h) world" where
  "pushThemeColors entries =
     fold (\<lambda>(colorID, color) (colorCount, s).
             (int32 (colorCount + 1), PushStyleColorVec4 (int32 colorID) color s)) entries"

definition pushThemeVars :: "(int \<times> real) list \<Rightarrow> int \<times> ('t, 'h) world \<Rightarrow> int \<times> ('t, 'h) world" where
  "pushThemeVars entries =
     fold (\<lambda>(varID, v) (varCount, s).
             (int32 (varCount + 1), PushStyleVarFloat (int32 varID) v s)) entries"

definition Run_frame :: "(('t, 'h) world \<Rightarrow> panic + ('t, 'h) world) \<Rightarrow> ('t, 'h) world \<Rightarrow> panic + ('t, 'h) world" where
  "Run_frame loopFunc s =
     (let (colorCount, varCount, s1) =
            (case currentThemeObject s of
               None \<Rightarrow> (0, 0, s)
             | Some theme \<Rightarrow>
                 (let (cc, sa) = pushThemeColors (DAList.impl_of (colors theme)) (0, s);
                      (vc, sb) = pushThemeVars (DAList.impl_of (vars theme)) (0, sa)
                  in (cc, vc, sb)))
      in case loopFunc s1 of
           Inl e \<Rightarrow> Inl e
         | Inr s2 \<Rightarrow>
             (let s3 = (if varCount > 0 then PopStyleVarV varCount s2 else s2)
              in Inr (if colorCount > 0 then PopStyleColorV colorCount s3 else s3)))"

section \<open>The counter widget\<close>

text \<open>
  A widget descriptor is built anew in every frame; its state lives in the state map
  under the descriptor's identifier.  \<open>onChange\<close> is \<open>None\<close> for a \<^verbatim>\<open>nil\<close> callback;
  a callback is application code and may change anything in the world.
\<close>

record ('t, 'h) CounterWidget =
  cid :: string
  clabel :: string
  minValue :: int
  maxValue :: int
  onChange :: "(int \<Rightarrow> ('t, 'h) world \<Rightarrow> ('t, 'h) world) option"

definition Counter :: "string \<Rightarrow> ('t, 'h) CounterWidget" where
  "Counter label =
     \<lparr>cid = label @ ''##counter'', clabel = label, minValue = 0, maxValue = 100, onChange = None\<rparr>"

definition Counter_Min :: "int \<Rightarrow> ('t, 'h) CounterWidget \<Rightarrow> ('t, 'h) CounterWidget" where
  "Counter_Min m c = c\<lparr>minValue := m\<rparr>"

definition Counter_Max :: "int \<Rightarrow> ('t, 'h) CounterWidget \<Rightarrow> ('t, 'h) CounterWidget" where
  "Counter_Max m c = c\<lparr>maxValue := m\<rparr>"

definition Counter_OnChange ::
  "(int \<Rightarrow> ('t, 'h) world \<Rightarrow> ('t, 'h) world) \<Rightarrow> ('t, 'h) CounterWidget \<Rightarrow> ('t, 'h) CounterWidget" where
  "Counter_OnChange f c = c\<lparr>onChange := Some f\<rparr>"

text \<open>
  \<^verbatim>\<open>getState\<close>: the entry under the identifier is returned when it exists and the type
  assertion \<^verbatim>\<open>existingState.(*counterState)\<close> succeeds; in every other case a new
  record is allocated, stored under the identifier and returned.
\<close>

definition Counter_getState :: "('t, 'h) CounterWidget \<Rightarrow> ('t, 'h) world \<Rightarrow> nat \<times> ('t, 'h) world" where
  "Counter_getState c s =
     (case lookupState s (cid c) of
        Some (CounterRef a) \<Rightarrow> (a, s)
      | _ \<Rightarrow>
          (let a = nextObj s;
               s' = s\<lparr>counterObjs := (counterObjs s)(a := \<lparr>val = minValue c, step = 1\<rparr>),
                      nextObj := Suc a\<rparr>
           in (a, storeState (cid c) (CounterRef a) s')))"

definition setVal :: "nat \<Rightarrow> int \<Rightarrow> ('t, 'h) world \<Rightarrow> ('t, 'h) world" where
  "setVal a v s = s\<lparr>counterObjs := (counterObjs s)(a := (counterObjs s a)\<lparr>val := v\<rparr>)\<rparr>"

definition fireOnChange :: "('t, 'h) CounterWidget \<Rightarrow> int \<Rightarrow> ('t, 'h) world \<Rightarrow> ('t, 'h) world" where
  "fireOnChange c v s = (case onChange c of None \<Rightarrow> s | Some f \<Rightarrow> f v s)"

text \<open>What the renderer answers during one \<^verbatim>\<open>CounterWidget.Build\<close>.\<close>

record counterInput =
  counter_table :: bool
  minus_clicked :: bool
  plus_clicked :: bool

definition Counter_Build :: "('t, 'h) CounterWidget \<Rightarrow> counterInput \<Rightarrow> ('t, 'h) world \<Rightarrow> ('t, 'h) world" where
  "Counter_Build c inp s =
     (let (a, s1) = Counter_getState c s
      in if counter_table inp then
           (let s2 = (if minus_clicked inp \<and> val (counterObjs s1 a) > minValue c
                      then (let sd = setVal a (val (counterObjs s1 a) - 1) s1
                            in fireOnChange c (val (counterObjs sd a)) sd)
                      else s1)
            in if plus_clicked inp \<and> val (counterObjs s2 a) < maxValue c
               then (let si = setVal a (val (counterObjs s2 a) + 1) s2
                     in fireOnChange c (val (counterObjs si a)) si)
               else s2)
         else s1)"

definition Counter_GetValue :: "('t, 'h) CounterWidget \<Rightarrow> ('t, 'h) world \<Rightarrow> int \<times> ('t, 'h) world" where
  "Counter_GetValue c s = (let (a, s1) = Counter_getState c s in (val (counterObjs s1 a), s1))"

definition Counter_SetValue :: "('t, 'h) CounterWidget \<Rightarrow> int \<Rightarrow> ('t, 'h) world \<Rightarrow> ('t, 'h) world" where
  "Counter_SetValue c v s =
     (let (a, s1) = Counter_getState c s
      in if v \<ge> minValue c \<and> v \<le> maxValue c then setVal a v s1 else s1)"

section \<open>The timer widget\<close>

record TimerWidget =
  tid :: string
  tlabel :: string

definition Timer :: "string \<Rightarrow> TimerWidget" where
  "Timer label = \<lparr>tid = label @ ''##timer'', tlabel = label\<rparr>"

definition Timer_getState :: "TimerWidget \<Rightarrow> ('t::zero, 'h) world \<Rightarrow> nat \<times> ('t, 'h) world" where
  "Timer_getState t s =
     (case lookupState s (tid t) of
        Some (TimerRef a) \<Rightarrow> (a, s)
      | _ \<Rightarrow>
          (let a = nextObj s;
               s' = s\<lparr>timerObjs := (timerObjs s)(a :=
                        \<lparr>startTime = now s, elapsedTime = 0, isRunning = False, isPaused = False\<rparr>),
                      nextObj := Suc a\<rparr>
           in (a, storeState (tid t) (TimerRef a) s')))"

text \<open>
  What the renderer answers during one \<^verbatim>\<open>TimerWidget.Build\<close>.  The first column
  shows one button, \<^verbatim>\<open>Start\<close>, \<^verbatim>\<open>Pause\<close> or \<^verbatim>\<open>Resume\<close>, chosen by the state;
  \<open>first_clicked\<close> is the answer of the one that is shown.
\<close>

record timerInput =
  timer_table :: bool
  first_clicked :: bool
  stop_clicked :: bool
  reset_clicked :: bool

definition timerControls :: "'t::{minus,zero} \<Rightarrow> timerInput \<Rightarrow> 't timerState \<Rightarrow> 't timerState" where
  "timerControls currentTime inp st =
     (let st1 =
            (if \<not> isRunning st then
               (if first_clicked inp
                then st\<lparr>startTime := currentTime - elapsedTime st, isRunning := True, isPaused := False\<rparr>
                else st)
             else if \<not> isPaused st then
               (if first_clicked inp then st\<lparr>isPaused := True\<rparr> else st)
             else
               (if first_clicked inp
                then st\<lparr>startTime := currentTime - elapsedTime st, isPaused := False\<rparr>
                else st));
          st2 = (if stop_clicked inp
                 then st1\<lparr>isRunning := False, isPaused := False, elapsedTime := 0\<rparr>
                 else st1)
      in if reset_clicked inp then st2\<lparr>startTime := currentTime, elapsedTime := 0\<rparr> else st2)"

text \<open>
  \<open>Timer_Build\<close> returns the elapsed time that the label shows (the value formatted by
  \<^verbatim>\<open>imgui.Text\<close>, read after the update and before the buttons) and the new world.
\<close>

definition Timer_Build ::
  "TimerWidget \<Rightarrow> timerInput \<Rightarrow> ('t::{minus,zero}, 'h) world \<Rightarrow> 't \<times> ('t, 'h) world" where
  "Timer_Build t inp s =
     (let (a, s1) = Timer_getState t s;
          currentTime = now s1;
          st = timerObjs s1 a;
          st1 = (if isRunning st \<and> \<not> isPaused st
                 then st\<lparr>elapsedTime := currentTime - startTime st\<rparr> else st);
          st2 = (if timer_table inp then timerControls currentTime inp st1 else st1)
      in (elapsedTime st1, s1\<lparr>timerObjs := (timerObjs s1)(a := st2)\<rparr>))"

definition Timer_GetElapsed :: "TimerWidget \<Rightarrow> ('t::zero, 'h) world \<Rightarrow> 't \<times> ('t, 'h) world" where
  "Timer_GetElapsed t s = (let (a, s1) = Timer_getState t s in (elapsedTime (timerObjs s1 a), s1))"

section \<open>The status display\<close>

definition StatusDisplay :: StatusDisplayWidget where
  "StatusDisplay = \<lparr>sid = ''##status_display'', height = 100\<rparr>"

definition Status_getState :: "StatusDisplayWidget \<Rightarrow> ('t, 'h) world \<Rightarrow> nat \<times> ('t, 'h) world" where
  "Status_getState w s =
     (case lookupState s (sid w) of
        Some (StatusRef a) \<Rightarrow> (a, s)
      | _ \<Rightarrow>
          (let a = nextObj s;
               s' = s\<lparr>statusObjs := (statusObjs s)(a :=
                        \<lparr>messages = [], timestamps = [], maxMessages = 100\<rparr>),
                      nextObj := Suc a\<rparr>
           in (a, storeState (sid w) (StatusRef a) s')))"

definition addEntry :: "string \<Rightarrow> 't \<Rightarrow> 't statusState \<Rightarrow> 't statusState" where
  "addEntry message currentTime st =
     (let st1 = st\<lparr>messages := messages st @ [message]\<rparr>;
          st2 = st1\<lparr>timestamps := timestamps st1 @ [currentTime]\<rparr>
      in if int (length (messages st2)) > maxMessages st2
         then st2\<lparr>messages := drop 1 (messages st2), timestamps := drop 1 (timestamps st2)\<rparr>
         else st2)"

definition AddMessage :: "StatusDisplayWidget \<Rightarrow> string \<Rightarrow> ('t, 'h) world \<Rightarrow> ('t, 'h) world" where
  "AddMessage w message s =
     (let (a, s1) = Status_getState w s;
          currentTime = now s1
      in s1\<lparr>statusObjs := (statusObjs s1)(a := addEntry message currentTime (statusObjs s1 a))\<rparr>)"

text \<open>
  The loop \<^verbatim>\<open>for i := len(state.messages) - 1; i >= 0; i--\<close> of
  \<^verbatim>\<open>StatusDisplayWidget.Build\<close>; the argument \<open>Suc i\<close> stands for the index \<open>i\<close>.  The
  result is the list of (age, message) lines drawn, in drawing order.  Reading
  \<^verbatim>\<open>state.timestamps[i]\<close> beyond its length panics.
\<close>

fun statusLines ::
  "'t::{minus,ord,numeral} \<Rightarrow> string list \<Rightarrow> 't list \<Rightarrow> nat \<Rightarrow> panic + ('t \<times> string) list" where
  "statusLines currentTime msgs ts 0 = Inr []"
| "statusLines currentTime msgs ts (Suc i) =
     (if i < length ts then
        (let age = currentTime - ts ! i
         in case statusLines currentTime msgs ts i of
              Inl e \<Rightarrow> Inl e
            | Inr rest \<Rightarrow> Inr ((if age < 10 then [(age, msgs ! i)] else []) @ rest))
      else Inl IndexOutOfRange)"

definition Status_Build ::
  "StatusDisplayWidget \<Rightarrow> ('t::{minus,ord,numeral}, 'h) world \<Rightarrow>
     panic + (('t \<times> string) list \<times> ('t, 'h) world)" where
  "Status_Build w s =
     (let (a, s1) = Status_getState w s;
          st = statusObjs s1 a
      in case statusLines (now s1) (messages st) (timestamps st) (length (messages st)) of
           Inl e \<Rightarrow> Inl e
         | Inr shown \<Rightarrow> Inr (shown, s1))"

definition LogStatus :: "string \<Rightarrow> ('t, 'h) world \<Rightarrow> ('t, 'h) world" where
  "LogStatus message s =
     (case globalStatus s of None \<Rightarrow> s | Some w \<Rightarrow> AddMessage w message s)"

definition SetGlobalTheme :: "Theme \<Rightarrow> ('t, 'h) world \<Rightarrow> ('t, 'h) world" where
  "SetGlobalTheme theme s =
     LogStatus (''Theme set to: '' @ name theme) (s\<lparr>currentThemeObject := Some theme\<rparr>)"

section \<open>The initial state of the program\<close>

text \<open>
  The package-level variables as their declarations initialise them: an empty state
  map, no theme, no status display; nothing allocated, both style stacks empty.  The
  clock of this world is real-valued: it is the start of the instances below.
\<close>

definition initialWorld :: "'h \<Rightarrow> (real, 'h) world" where
  "initialWorld h =
     \<lparr>GlobalContext = \<lparr>widgetCounter = 0, stateMap = Map.empty\<rparr>,
      counterObjs = (\<lambda>a. \<lparr>val = 0, step = 0\<rparr>),
      timerObjs = (\<lambda>a. \<lparr>startTime = 0, elapsedTime = 0, isRunning = False, isPaused = False\<rparr>),
      statusObjs = (\<lambda>a. \<lparr>messages = [], timestamps = [], maxMessages = 0\<rparr>),
      nextObj = 0,
      globalStatus = None,
      currentThemeObject = None,
      colorStack = [],
      varStack = [],
      now = 0,
      host = h\<rparr>"


section \<open>Predicates used in the statements\<close>

text \<open>
  \<open>keepsStyle f\<close>: whenever \<open>f\<close> returns, it has left both style stacks as it found
  them.  Every \<^verbatim>\<open>Build\<close> of the source other than \<^verbatim>\<open>StyleSetter.Build\<close> is such an
  \<open>f\<close>, since none of them pushes or pops; a callback is, unless the application pushes
  or pops in it.  \<open>admissible w\<close>: every leaf of the tree \<open>w\<close> keeps the style stacks,
  and every style setter in it has fewer than \<open>2^31\<close> colours and fewer than \<open>2^31\<close>
  variables, so that the \<^verbatim>\<open>int32\<close> conversions of the two lengths are exact.
\<close>

definition keepsStyle :: "(('t, 'h) world \<Rightarrow> panic + ('t, 'h) world) \<Rightarrow> bool" where
  "keepsStyle f = (\<forall>s s'. f s = Inr s' \<longrightarrow> colorStack s' = colorStack s \<and> varStack s' = varStack s)"

fun admissible :: "('t, 'h) Widget \<Rightarrow> bool"
  and admissibleList :: "('t, 'h) Widget option list \<Rightarrow> bool"
where
  "admissible (Leaf f) = keepsStyle f"
| "admissible (Layout ws) = admissibleList ws"
| "admissible (SingleWindow ws) = admissibleList ws"
| "admissible (Column ws) = admissibleList ws"
| "admissible (Row table_open ws) = admissibleList ws"
| "admissible (StyleSetter cs vs ws) =
     (length (DAList.impl_of cs) < 2147483648 \<and> length (DAList.impl_of vs) < 2147483648 \<and>
      admissibleList ws)"
| "admissibleList [] = True"
| "admissibleList (None # ws) = admissibleList ws"
| "admissibleList (Some w # ws) = (admissible w \<and> admissibleList ws)"


text \<open>
  \<open>returns f\<close>: \<open>f\<close> never panics.  \<open>panicFree w\<close>: no leaf of \<open>w\<close> panics and no row of
  \<open>w\<close> has a \<^verbatim>\<open>nil\<close> child.
\<close>

definition returns :: "(('t, 'h) world \<Rightarrow> panic + ('t, 'h) world) \<Rightarrow> bool" where
  "returns f = (\<forall>s. \<exists>s'. f s = Inr s')"

fun panicFree :: "('t, 'h) Widget \<Rightarrow> bool"
  and panicFreeEach :: "('t, 'h) Widget option list \<Rightarrow> bool"
  and panicFreeColumns :: "('t, 'h) Widget option list \<Rightarrow> bool"
where
  "panicFree (Leaf f) = returns f"
| "panicFree (Layout ws) = panicFreeEach ws"
| "panicFree (SingleWindow ws) = panicFreeEach ws"
| "panicFree (Column ws) = panicFreeEach ws"
| "panicFree (Row table_open ws) = panicFreeColumns ws"
| "panicFree (StyleSetter cs vs ws) = panicFreeEach ws"
| "panicFreeEach [] = True"
| "panicFreeEach (None # ws) = panicFreeEach ws"
| "panicFreeEach (Some w # ws) = (panicFree w \<and> panicFreeEach ws)"
| "panicFreeColumns [] = True"
| "panicFreeColumns (None # ws) = False"
| "panicFreeColumns (Some w # ws) = (panicFree w \<and> panicFreeColumns ws)"


text \<open>
  \<open>popLayer nc nv\<close> removes the \<open>nc\<close> topmost colour entries and the \<open>nv\<close> topmost
  variable entries: what the two guarded pops at the end of \<^verbatim>\<open>StyleSetter.Build\<close> and
  of the frame do when the counts are exact.
\<close>

definition popLayer :: "nat \<Rightarrow> nat \<Rightarrow> ('t, 'h) world \<Rightarrow> ('t, 'h) world" where
  "popLayer nc nv s = s\<lparr>varStack := drop nv (varStack s), colorStack := drop nc (colorStack s)\<rparr>"


text \<open>
  \<open>validIds\<close>: every key of the map is a value of the renderer's 32-bit property type,
  so that the conversions \<^verbatim>\<open>imgui.Col(colorID)\<close> and \<^verbatim>\<open>imgui.StyleVar(varID)\<close> do
  not change it.  \<open>idsValid w\<close>: this holds for both maps of every style setter of \<open>w\<close>.
\<close>

definition validIds :: "(int \<times> 'v) list \<Rightarrow> bool" where
  "validIds es = list_all (\<lambda>(k, v). int32 k = k) es"

fun idsValid :: "('t, 'h) Widget \<Rightarrow> bool"
  and idsValidList :: "('t, 'h) Widget option list \<Rightarrow> bool"
where
  "idsValid (Leaf f) = True"
| "idsValid (Layout ws) = idsValidList ws"
| "idsValid (SingleWindow ws) = idsValidList ws"
| "idsValid (Column ws) = idsValidList ws"
| "idsValid (Row table_open ws) = idsValidList ws"
| "idsValid (StyleSetter cs vs ws) =
     (validIds (DAList.impl_of cs) \<and> validIds (DAList.impl_of vs) \<and> idsValidList ws)"
| "idsValidList [] = True"
| "idsValidList (None # ws) = idsValidList ws"
| "idsValidList (Some w # ws) = (idsValid w \<and> idsValidList ws)"


text \<open>
  \<open>shadow layers idx base\<close> is the value of property \<open>idx\<close> under a list of override
  layers, innermost first: the value in the first layer that defines it, \<open>base\<close> when
  none does.
\<close>

fun shadow :: "(int \<times> 'v) list list \<Rightarrow> int \<Rightarrow> 'v option \<Rightarrow> 'v option" where
  "shadow [] idx base = base"
| "shadow (layer # outer) idx base =
     (case map_of layer idx of Some v \<Rightarrow> Some v | None \<Rightarrow> shadow outer idx base)"


text \<open>
  \<open>leafVisits w ls s\<close> follows \<open>Build w s\<close> and lists, in the order of the walk, every
  leaf that the walk reaches: the override layers of the style setters that enclose the
  leaf (innermost first, in front of \<open>ls\<close>) and the world in which the leaf's
  \<^verbatim>\<open>Build\<close> starts.  The walk of a list goes on to the next child from the world that
  \<open>Build\<close> of the previous child returns, and stops where a child panics.
\<close>

type_synonym layer = "(int \<times> Vec4) list \<times> (int \<times> real) list"

fun leafVisits :: "('t, 'h) Widget \<Rightarrow> layer list \<Rightarrow> ('t, 'h) world \<Rightarrow> (layer list \<times> ('t, 'h) world) list"
  and leafVisits_each :: "('t, 'h) Widget option list \<Rightarrow> layer list \<Rightarrow> ('t, 'h) world \<Rightarrow> (layer list \<times> ('t, 'h) world) list"
  and leafVisits_columns :: "('t, 'h) Widget option list \<Rightarrow> layer list \<Rightarrow> ('t, 'h) world \<Rightarrow> (layer list \<times> ('t, 'h) world) list"
where
  "leafVisits (Leaf f) ls s = [(ls, s)]"
| "leafVisits (Layout ws) ls s = leafVisits_each ws ls s"
| "leafVisits (SingleWindow ws) ls s = leafVisits_each ws ls s"
| "leafVisits (Column ws) ls s = leafVisits_each ws ls s"
| "leafVisits (Row table_open ws) ls s =
     (if length ws = 0 then []
      else if table_open then leafVisits_columns ws ls s
      else [])"
| "leafVisits (StyleSetter cs vs ws) ls s =
     leafVisits_each ws ((DAList.impl_of cs, DAList.impl_of vs) # ls)
       (pushVars (DAList.impl_of vs) (pushColors (DAList.impl_of cs) s))"
| "leafVisits_each [] ls s = []"
| "leafVisits_each (None # ws) ls s = leafVisits_each ws ls s"
| "leafVisits_each (Some w # ws) ls s =
     leafVisits w ls s @
     (case Build w s of Inl e \<Rightarrow> [] | Inr s' \<Rightarrow> leafVisits_each ws ls s')"
| "leafVisits_columns [] ls s = []"
| "leafVisits_columns (None # ws) ls s = []"
| "leafVisits_columns (Some w # ws) ls s =
     leafVisits w ls s @
     (case Build w s of Inl e \<Rightarrow> [] | Inr s' \<Rightarrow> leafVisits_columns ws ls s')"


text \<open>
  \<open>stackOf layers\<close> is the stack segment that pushing the layers, outermost first,
  leaves; \<open>wrapped ls s v\<close> says of a leaf visit \<open>v\<close> that its layers are \<open>ls\<close> with
  some well-formed layers in front, and that its stacks are those of \<open>s\<close> with exactly
  the entries of these layers on top.
\<close>

definition layerOk :: "layer \<Rightarrow> bool" where
  "layerOk l = (distinct (map fst (fst l)) \<and> distinct (map fst (snd l)) \<and>
                validIds (fst l) \<and> validIds (snd l))"

definition stackOf :: "(int \<times> 'v) list list \<Rightarrow> (int \<times> 'v) list" where
  "stackOf layers = concat (map rev layers)"

definition wrapped :: "layer list \<Rightarrow> ('t, 'h) world \<Rightarrow> layer list \<times> ('t, 'h) world \<Rightarrow> bool" where
  "wrapped ls s v =
     (\<exists>inner. fst v = inner @ ls \<and> list_all layerOk inner \<and>
        colorStack (snd v) = stackOf (map fst inner) @ colorStack s \<and>
        varStack (snd v) = stackOf (map snd inner) @ varStack s)"



text \<open>
  \<open>leafLayers w ls\<close> lists, for every leaf of the tree \<open>w\<close> in the order of the walk,
  the override layers of the style setters that enclose the leaf, innermost first, in
  front of \<open>ls\<close>.  The children of a row whose table the renderer does not open are not
  built and are left out.
\<close>

fun leafLayers :: "('t, 'h) Widget \<Rightarrow> layer list \<Rightarrow> layer list list"
  and leafLayersList :: "('t, 'h) Widget option list \<Rightarrow> layer list \<Rightarrow> layer list list"
where
  "leafLayers (Leaf f) ls = [ls]"
| "leafLayers (Layout ws) ls = leafLayersList ws ls"
| "leafLayers (SingleWindow ws) ls = leafLayersList ws ls"
| "leafLayers (Column ws) ls = leafLayersList ws ls"
| "leafLayers (Row table_open ws) ls = (if table_open then leafLayersList ws ls else [])"
| "leafLayers (StyleSetter cs vs ws) ls =
     leafLayersList ws ((DAList.impl_of cs, DAList.impl_of vs) # ls)"
| "leafLayersList [] ls = []"
| "leafLayersList (None # ws) ls = leafLayersList ws ls"
| "leafLayersList (Some w # ws) ls = leafLayers w ls @ leafLayersList ws ls"


text \<open>
  A trace of the walk.  \<open>withHost h s\<close> is the world \<open>s\<close> with \<open>h\<close> as its host state.
  \<open>traceLeaf f\<close> is the leaf \<open>f\<close> with a log next to its host state: it appends the world
  in which it is built to the log and then does what \<open>f\<close> does, which neither sees nor
  changes the log.  \<open>traced w\<close> is the tree \<open>w\<close> with every leaf replaced in this way, so
  that \<^verbatim>\<open>Build\<close> of \<open>traced w\<close> returns, next to the host state, the worlds in which
  \<^verbatim>\<open>Build\<close> has built the leaves of \<open>w\<close>, in the order of the walk.
\<close>

definition withHost :: "'g \<Rightarrow> ('t, 'h) world \<Rightarrow> ('t, 'g) world" where
  "withHost h s =
     \<lparr>GlobalContext = GlobalContext s, counterObjs = counterObjs s, timerObjs = timerObjs s,
      statusObjs = statusObjs s, nextObj = nextObj s, globalStatus = globalStatus s,
      currentThemeObject = currentThemeObject s, colorStack = colorStack s,
      varStack = varStack s, now = now s, host = h\<rparr>"

definition traceLeaf ::
  "(('t, 'h) world \<Rightarrow> panic + ('t, 'h) world) \<Rightarrow>
   ('t, 'h \<times> ('t, 'h) world list) world \<Rightarrow> panic + ('t, 'h \<times> ('t, 'h) world list) world" where
  "traceLeaf f s =
     (let t = withHost (fst (host s)) s
      in case f t of
           Inl e \<Rightarrow> Inl e
         | Inr t' \<Rightarrow> Inr (withHost (host t', snd (host s) @ [t]) t'))"

fun traced :: "('t, 'h) Widget \<Rightarrow> ('t, 'h \<times> ('t, 'h) world list) Widget"
  and tracedList :: "('t, 'h) Widget option list \<Rightarrow> ('t, 'h \<times> ('t, 'h) world list) Widget option list"
where
  "traced (Leaf f) = Leaf (traceLeaf f)"
| "traced (Layout ws) = Layout (tracedList ws)"
| "traced (SingleWindow ws) = SingleWindow (tracedList ws)"
| "traced (Column ws) = Column (tracedList ws)"
| "traced (Row table_open ws) = Row table_open (tracedList ws)"
| "traced (StyleSetter cs vs ws) = StyleSetter cs vs (tracedList ws)"
| "tracedList [] = []"
| "tracedList (None # ws) = None # tracedList ws"
| "tracedList (Some w # ws) = Some (traced w) # tracedList ws"


text \<open>
  The dynamic type of a state-map entry, as the type assertions of the counter and of
  the timer test it.
\<close>

fun isCounterRef :: "ref \<Rightarrow> bool" where
  "isCounterRef (CounterRef a) = True"
| "isCounterRef r = False"

fun isTimerRef :: "ref \<Rightarrow> bool" where
  "isTimerRef (TimerRef a) = True"
| "isTimerRef r = False"



text \<open>
  The renderer's answers for a frame in which the user presses \<^verbatim>\<open>-\<close>, presses
  \<^verbatim>\<open>+\<close>, or presses nothing, and \<open>Counter_Builds\<close>: one \<^verbatim>\<open>Build\<close> per frame for a
  list of such answers.  \<open>inInt64\<close> is the range of Go's \<^verbatim>\<open>int\<close>.
\<close>

definition clickMinus :: counterInput where
  "clickMinus = \<lparr>counter_table = True, minus_clicked = True, plus_clicked = False\<rparr>"

definition clickPlus :: counterInput where
  "clickPlus = \<lparr>counter_table = True, minus_clicked = False, plus_clicked = True\<rparr>"

definition clickNone :: counterInput where
  "clickNone = \<lparr>counter_table = True, minus_clicked = False, plus_clicked = False\<rparr>"

definition Counter_Builds :: "('t, 'h) CounterWidget \<Rightarrow> counterInput list \<Rightarrow> ('t, 'h) world \<Rightarrow> ('t, 'h) world" where
  "Counter_Builds c inps s = fold (Counter_Build c) inps s"


definition inInt64 :: "int \<Rightarrow> bool" where
  "inInt64 n = (- 9223372036854775808 \<le> n \<and> n < 9223372036854775808)"


text \<open>
  The renderer's answers for a frame in which the user presses the button of the first
  column (\<^verbatim>\<open>Start\<close>, \<^verbatim>\<open>Pause\<close> or \<^verbatim>\<open>Resume\<close>, whichever is shown), or presses
  nothing.  \<open>Timer_frames\<close>: one \<^verbatim>\<open>Build\<close> per frame for a list of frame times and
  answers; the result is the list of the elapsed times shown and the final world.
\<close>

definition pressFirst :: timerInput where
  "pressFirst = \<lparr>timer_table = True, first_clicked = True, stop_clicked = False, reset_clicked = False\<rparr>"

definition pressNothing :: timerInput where
  "pressNothing = \<lparr>timer_table = True, first_clicked = False, stop_clicked = False, reset_clicked = False\<rparr>"

definition Timer_frames ::
  "TimerWidget \<Rightarrow> ('t \<times> timerInput) list \<Rightarrow> ('t::{minus,zero}, 'h) world \<Rightarrow>
     't list \<times> ('t, 'h) world" where
  "Timer_frames t frames s =
     fold (\<lambda>(tm, inp) (shown, s0).
             (let (e, s') = Timer_Build t inp (s0\<lparr>now := tm\<rparr>) in (shown @ [e], s')))
          frames ([], s)"


text \<open>
  \<open>AddMessages w entries\<close>: one call of \<^verbatim>\<open>AddMessage\<close> for each (message, time) pair
  of the list, in order, the frame clock showing the pair's time during the call.
  \<open>statusInv\<close> is the invariant of a status record: as many time stamps as messages, and
  no more of them than \<open>maxMessages\<close>.  \<open>lastN n xs\<close> is the list of the last \<open>n\<close>
  elements of \<open>xs\<close> (all of \<open>xs\<close> when it has no more than \<open>n\<close>).
\<close>

definition AddMessages ::
  "StatusDisplayWidget \<Rightarrow> (string \<times> 't) list \<Rightarrow> ('t, 'h) world \<Rightarrow> ('t, 'h) world" where
  "AddMessages w entries s =
     fold (\<lambda>(message, tm) s0. AddMessage w message (s0\<lparr>now := tm\<rparr>)) entries s"

definition statusInv :: "'t statusState \<Rightarrow> bool" where
  "statusInv st =
     (length (messages st) = length (timestamps st) \<and> int (length (messages st)) \<le> maxMessages st)"

definition lastN :: "int \<Rightarrow> 'a list \<Rightarrow> 'a list" where
  "lastN n xs = drop (length xs - nat n) xs"


section \<open>Example inputs\<close>

text \<open>
  Small inputs for the instances below.  The property numbers stand for renderer
  constants such as \<^verbatim>\<open>imgui.ColButton\<close>, whose values are not part of the repository.
\<close>

definition exampleBlue :: Vec4 where "exampleBlue = \<lparr>X = 0, Y = 0, Z = 1, W = 1\<rparr>"
definition exampleRed :: Vec4 where "exampleRed = \<lparr>X = 1, Y = 0, Z = 0, W = 1\<rparr>"

definition exampleTheme :: Theme where
  "exampleTheme = \<lparr>name = ''Blue'', colors = DAList.update 21 exampleBlue (DAList.update 2 exampleRed DAList.empty),
     vars = DAList.update 3 5 DAList.empty\<rparr>"

definition exampleOtherTheme :: Theme where
  "exampleOtherTheme = \<lparr>name = ''Red'', colors = DAList.update 21 exampleRed DAList.empty,
     vars = DAList.empty\<rparr>"

definition exampleLoop :: "(real, unit) world \<Rightarrow> panic + (real, unit) world" where
  "exampleLoop = Build (SingleWindow
     [Some (Leaf (\<lambda>s. Inr (SetGlobalTheme exampleOtherTheme s))),
      Some (StyleSetter (DAList.update 21 exampleRed DAList.empty) DAList.empty [Some (Leaf Inr)])])"


text \<open>
  \<open>observeColor idx\<close> is a leaf that records, in the host state, the effective colour of
  property \<open>idx\<close> at the moment it is built.
\<close>

definition observeColor ::
  "int \<Rightarrow> ('t, Vec4 option list) world \<Rightarrow> panic + ('t, Vec4 option list) world" where
  "observeColor idx s = Inr (s\<lparr>host := host s @ [effectiveColor s idx]\<rparr>)"

definition exampleTree :: "(real, Vec4 option list) Widget" where
  "exampleTree = Column
     [Some (StyleSetter (DAList.update 21 exampleRed DAList.empty) (DAList.update 3 9 DAList.empty)
              [Some (Row True [Some (Leaf (observeColor 21))])]),
      Some (Leaf (observeColor 21))]"


text \<open>
  A world in which the key \<open>''x''\<close> holds a counter record and the key \<open>''y''\<close> a timer
  record.
\<close>

definition exampleCollision :: "(real, unit) world" where
  "exampleCollision =
     (initialWorld ())\<lparr>GlobalContext := \<lparr>widgetCounter = 0, stateMap = [''x'' \<mapsto> CounterRef 0, ''y'' \<mapsto> TimerRef 1]\<rparr>,
        counterObjs := (\<lambda>a. \<lparr>val = 0, step = 0\<rparr>)(0 := \<lparr>val = 3, step = 1\<rparr>),
        nextObj := 2\<rparr>"


text \<open>
  A callback that appends the value it is called with to the host state, and the counter
  \<^verbatim>\<open>Counter("x").Min(0).Max(5)\<close> of the specification with this callback.
\<close>

definition recordChange :: "int \<Rightarrow> ('t, int list) world \<Rightarrow> ('t, int list) world" where
  "recordChange v s = s\<lparr>host := host s @ [v]\<rparr>"

definition exampleCounter :: "(real, int list) CounterWidget" where
  "exampleCounter = Counter_OnChange recordChange (Counter_Max 5 (Counter_Min 0 (Counter ''x'')))"


text \<open>
  The world after \<^verbatim>\<open>Start\<close> has been pressed on a new timer at time 0, and the world
  after \<^verbatim>\<open>Pause\<close> has then been pressed at time 10.
\<close>

definition exampleStarted :: "(real, unit) world" where
  "exampleStarted = snd (Timer_Build (Timer ''T'') pressFirst (initialWorld ()))"

definition examplePaused :: "(real, unit) world" where
  "examplePaused = snd (Timer_Build (Timer ''T'') pressFirst (exampleStarted\<lparr>now := 10\<rparr>))"


text \<open>
  A world whose status display has room for three messages, and four messages to add.
\<close>

definition exampleLog :: "(real, unit) world" where
  "exampleLog =
     (initialWorld ())\<lparr>GlobalContext := \<lparr>widgetCounter = 0, stateMap = [''##status_display'' \<mapsto> StatusRef 0]\<rparr>,
        statusObjs := (\<lambda>a. \<lparr>messages = [], timestamps = [], maxMessages = 0\<rparr>)
                        (0 := \<lparr>messages = [], timestamps = [], maxMessages = 3\<rparr>),
        nextObj := 1\<rparr>"

definition exampleEntries :: "(string \<times> real) list" where
  "exampleEntries = [(''A'', 1), (''B'', 2), (''C'', 3), (''D'', 4)]"


section \<open>The style engine keeps the stacks balanced\<close>

lemma int32_small: "0 \<le> n \<Longrightarrow> n < 2147483648 \<Longrightarrow> int32 n = n"
  by (simp add: int32_def)

lemma pushColors_colorStack:
  "colorStack (pushColors es s) = rev (map (\<lambda>(k, v). (int32 k, v)) es) @ colorStack s"
  unfolding pushColors_def
  by (induction es arbitrary: s) (auto simp: PushStyleColorVec4_def)

lemma pushColors_varStack: "varStack (pushColors es s) = varStack s"
  unfolding pushColors_def
  by (induction es arbitrary: s) (auto simp: PushStyleColorVec4_def)

lemma pushVars_varStack:
  "varStack (pushVars es s) = rev (map (\<lambda>(k, v). (int32 k, v)) es) @ varStack s"
  unfolding pushVars_def
  by (induction es arbitrary: s) (auto simp: PushStyleVarFloat_def)

lemma pushVars_colorStack: "colorStack (pushVars es s) = colorStack s"
  unfolding pushVars_def
  by (induction es arbitrary: s) (auto simp: PushStyleVarFloat_def)

lemma pop_after_push:
  assumes "length es < 2147483648" and "st = rev (map f es) @ st0"
  shows "(if int32 (int (length es)) > 0 then drop (nat (int32 (int (length es)))) st else st) = st0"
proof -
  have e: "int32 (int (length es)) = int (length es)"
    using assms(1) by (intro int32_small) auto
  show ?thesis
  proof (cases "es = []")
    case True
    then show ?thesis using assms(2) by (simp add: int32_def)
  next
    case False
    have "drop (length es) st = st0" using assms(2) by simp
    then show ?thesis using False by (simp add: e)
  qed
qed

lemma Build_keeps_stacks:
  "admissible w \<longrightarrow> (\<forall>s'. Build w s = Inr s' \<longrightarrow> colorStack s' = colorStack s \<and> varStack s' = varStack s)"
  "admissibleList ws \<longrightarrow> (\<forall>s'. build_each ws s = Inr s' \<longrightarrow> colorStack s' = colorStack s \<and> varStack s' = varStack s)"
  "admissibleList ws \<longrightarrow> (\<forall>s'. build_columns ws s = Inr s' \<longrightarrow> colorStack s' = colorStack s \<and> varStack s' = varStack s)"
proof (induction w s and ws s and ws s rule: Build_build_each_build_columns.induct)
  case (1 f s)
  then show ?case by (simp add: keepsStyle_def)
next
  case (5 table_open ws s)
  then show ?case by (auto split: if_splits)
next
  case (6 cs vs ws s)
  show ?case
  proof (intro impI allI)
    fix s'
    assume adm: "admissible (StyleSetter cs vs ws)"
      and b: "Build (StyleSetter cs vs ws) s = Inr s'"
    define s2 where "s2 = pushVars (DAList.impl_of vs) (pushColors (DAList.impl_of cs) s)"
    from b obtain s3 where s3: "build_each ws s2 = Inr s3"
      by (auto simp: s2_def Let_def split: sum.splits)
    from adm have "admissibleList ws" by simp
    with 6 s3 have keep: "colorStack s3 = colorStack s2" "varStack s3 = varStack s2"
      by (auto simp: s2_def)
    have c2: "colorStack s2 = rev (map (\<lambda>(k, v). (int32 k, v)) (DAList.impl_of cs)) @ colorStack s"
      by (simp add: s2_def pushVars_colorStack pushColors_colorStack)
    have v2: "varStack s2 = rev (map (\<lambda>(k, v). (int32 k, v)) (DAList.impl_of vs)) @ varStack s"
      by (simp add: s2_def pushVars_varStack pushColors_varStack)
    from adm have lc: "length (DAList.impl_of cs) < 2147483648" and lv: "length (DAList.impl_of vs) < 2147483648"
      by simp_all
    note pc = pop_after_push [OF lc c2 [folded keep(1)]]
    note pv = pop_after_push [OF lv v2 [folded keep(2)]]
    from b s3 have "s' = (let s4 = (if int32 (int (length (DAList.impl_of vs))) > 0 then PopStyleVarV (int32 (int (length (DAList.impl_of vs)))) s3 else s3)
              in (if int32 (int (length (DAList.impl_of cs))) > 0 then PopStyleColorV (int32 (int (length (DAList.impl_of cs)))) s4 else s4))"
      by (simp add: s2_def Let_def)
    then show "colorStack s' = colorStack s \<and> varStack s' = varStack s"
      using pc pv by (simp add: Let_def PopStyleVarV_def PopStyleColorV_def split: if_splits)
  qed
next
  case (8 ws s)
  then show ?case by simp
next
  case (9 w ws s)
  show ?case
  proof (intro impI allI)
    fix s'
    assume adm: "admissibleList (Some w # ws)" and b: "build_each (Some w # ws) s = Inr s'"
    from b obtain s1 where s1: "Build w s = Inr s1" and r: "build_each ws s1 = Inr s'"
      by (auto split: sum.splits)
    from adm "9.IH"(1) s1 have "colorStack s1 = colorStack s \<and> varStack s1 = varStack s" by simp
    moreover from adm "9.IH"(2) [OF s1] r have "colorStack s' = colorStack s1 \<and> varStack s' = varStack s1"
      by simp
    ultimately show "colorStack s' = colorStack s \<and> varStack s' = varStack s" by simp
  qed
next
  case (12 w ws s)
  show ?case
  proof (intro impI allI)
    fix s'
    assume adm: "admissibleList (Some w # ws)" and b: "build_columns (Some w # ws) s = Inr s'"
    from b obtain s1 where s1: "Build w s = Inr s1" and r: "build_columns ws s1 = Inr s'"
      by (auto split: sum.splits)
    from adm "12.IH"(1) s1 have "colorStack s1 = colorStack s \<and> varStack s1 = varStack s" by simp
    moreover from adm "12.IH"(2) [OF s1] r have "colorStack s' = colorStack s1 \<and> varStack s' = varStack s1"
      by simp
    ultimately show "colorStack s' = colorStack s \<and> varStack s' = varStack s" by simp
  qed
qed simp_all


text \<open>
  A \<^verbatim>\<open>Build\<close> returns unless a leaf panics or a row has a \<^verbatim>\<open>nil\<close> child.
\<close>

lemma Build_returns:
  "panicFree w \<Longrightarrow> \<exists>s'. Build w s = Inr s'"
  "panicFreeEach ws \<Longrightarrow> \<exists>s'. build_each ws s = Inr s'"
  "panicFreeColumns ws \<Longrightarrow> \<exists>s'. build_columns ws s = Inr s'"
proof (induction w and ws and ws arbitrary: s and s and s rule: panicFree_panicFreeEach_panicFreeColumns.induct)
  case (1 f)
  then show ?case by (simp add: returns_def)
next
  case (6 cs vs ws)
  then obtain s3 where "build_each ws (pushVars (DAList.impl_of vs) (pushColors (DAList.impl_of cs) s)) = Inr s3"
    by fastforce
  then show ?case by (simp add: Let_def)
next
  case (9 w ws)
  then obtain s1 where s1: "Build w s = Inr s1" by fastforce
  from 9 obtain s2 where "build_each ws s1 = Inr s2" by fastforce
  with s1 show ?case by simp
next
  case (12 w ws)
  then obtain s1 where s1: "Build w s = Inr s1" by fastforce
  from 12 obtain s2 where "build_columns ws s1 = Inr s2" by fastforce
  with s1 show ?case by simp
qed simp_all


text \<open>
  Claim C1.  A \<^verbatim>\<open>StyleSetter.Build\<close> that returns has pushed one colour entry per entry
  of its colour map and one variable entry per entry of its variable map, its children
  (nested style setters included) have left both depths as they found them, and it has
  popped as many entries of each kind as it pushed: both depths, and both stacks, are
  what they were before the call.
\<close>

theorem StyleSetter_Build_balanced:
  assumes "admissible (StyleSetter cs vs ws)"
    and "Build (StyleSetter cs vs ws) s = Inr s'"
  shows "\<exists>s2 s3. s2 = pushVars (DAList.impl_of vs) (pushColors (DAList.impl_of cs) s)
           \<and> length (colorStack s2) = length (colorStack s) + length (DAList.impl_of cs)
           \<and> length (varStack s2) = length (varStack s) + length (DAList.impl_of vs)
           \<and> build_each ws s2 = Inr s3
           \<and> length (colorStack s3) = length (colorStack s2)
           \<and> length (varStack s3) = length (varStack s2)
           \<and> length (colorStack s') = length (colorStack s3) - length (DAList.impl_of cs)
           \<and> length (varStack s') = length (varStack s3) - length (DAList.impl_of vs)
           \<and> length (colorStack s') = length (colorStack s)
           \<and> length (varStack s') = length (varStack s)
           \<and> colorStack s' = colorStack s
           \<and> varStack s' = varStack s"
proof -
  define s2 where "s2 = pushVars (DAList.impl_of vs) (pushColors (DAList.impl_of cs) s)"
  from assms(2) obtain s3 where s3: "build_each ws s2 = Inr s3"
    by (auto simp: s2_def Let_def split: sum.splits)
  from assms(1) have "admissibleList ws" by simp
  with Build_keeps_stacks(2) [of ws s2] s3
  have keep: "colorStack s3 = colorStack s2" "varStack s3 = varStack s2" by simp_all
  have c2: "length (colorStack s2) = length (colorStack s) + length (DAList.impl_of cs)"
    by (simp add: s2_def pushVars_colorStack pushColors_colorStack)
  have v2: "length (varStack s2) = length (varStack s) + length (DAList.impl_of vs)"
    by (simp add: s2_def pushVars_varStack pushColors_varStack)
  from Build_keeps_stacks(1) [of "StyleSetter cs vs ws" s] assms
  have fin: "colorStack s' = colorStack s" "varStack s' = varStack s" by simp_all
  show ?thesis
    using s3 c2 v2 by (simp add: s2_def [symmetric] keep fin)
qed

text \<open>
  The example of the specification: a red colour override around an empty override
  around a variable override around a widget that does nothing.
\<close>

theorem StyleSetter_Build_balanced_witness:
  "admissible (StyleSetter (DAList.update 21 \<lparr>X = 1, Y = 0, Z = 0, W = 1\<rparr> DAList.empty) DAList.empty
       [Some (StyleSetter DAList.empty DAList.empty
          [Some (StyleSetter DAList.empty (DAList.update 11 5 DAList.empty) [Some (Leaf Inr)])])])
   \<and> Build (StyleSetter (DAList.update 21 \<lparr>X = 1, Y = 0, Z = 0, W = 1\<rparr> DAList.empty) DAList.empty
       [Some (StyleSetter DAList.empty DAList.empty
          [Some (StyleSetter DAList.empty (DAList.update 11 5 DAList.empty) [Some (Leaf Inr)])])])
        (initialWorld ()) = Inr (initialWorld ())
   \<and> length (colorStack (initialWorld ())) = 0"
proof -
  let ?red = "\<lparr>X = 1, Y = 0, Z = 0, W = 1\<rparr>"
  let ?cs = "DAList.update 21 ?red DAList.empty"
  let ?ws = "[Some (StyleSetter DAList.empty DAList.empty
          [Some (StyleSetter DAList.empty (DAList.update 11 5 DAList.empty) [Some (Leaf Inr)])])]"
  have a: "admissible (StyleSetter ?cs DAList.empty ?ws)"
    by (simp add: keepsStyle_def DAList.update.rep_eq DAList.empty.rep_eq)
  have b: "Build (StyleSetter ?cs DAList.empty ?ws) (initialWorld ()) = Inr (initialWorld ())"
    by (simp add: DAList.update.rep_eq DAList.empty.rep_eq pushColors_def pushVars_def int32_def
          PushStyleColorVec4_def PushStyleVarFloat_def PopStyleColorV_def PopStyleVarV_def
          initialWorld_def)
  from StyleSetter_Build_balanced [OF a b] a b show ?thesis
    by (simp add: initialWorld_def)
qed

section \<open>The global theme is the outermost style scope of a frame\<close>

lemma pushThemeColors_count:
  "0 \<le> n \<Longrightarrow> n + int (length es) < 2147483648 \<Longrightarrow>
   pushThemeColors es (n, s) = (n + int (length es), pushColors es s)"
proof (induction es arbitrary: n s)
  case Nil
  then show ?case by (simp add: pushThemeColors_def pushColors_def)
next
  case (Cons e es)
  obtain k v where e: "e = (k, v)" by (cases e)
  from Cons.prems have i: "int32 (n + 1) = n + 1" by (intro int32_small) auto
  have "pushThemeColors (e # es) (n, s) = pushThemeColors es (n + 1, PushStyleColorVec4 (int32 k) v s)"
    by (simp add: pushThemeColors_def e i)
  also have "\<dots> = (n + 1 + int (length es), pushColors es (PushStyleColorVec4 (int32 k) v s))"
    using Cons.prems by (intro Cons.IH) auto
  finally show ?case by (simp add: pushColors_def e)
qed

lemma pushThemeVars_count:
  "0 \<le> n \<Longrightarrow> n + int (length es) < 2147483648 \<Longrightarrow>
   pushThemeVars es (n, s) = (n + int (length es), pushVars es s)"
proof (induction es arbitrary: n s)
  case Nil
  then show ?case by (simp add: pushThemeVars_def pushVars_def)
next
  case (Cons e es)
  obtain k v where e: "e = (k, v)" by (cases e)
  from Cons.prems have i: "int32 (n + 1) = n + 1" by (intro int32_small) auto
  have "pushThemeVars (e # es) (n, s) = pushThemeVars es (n + 1, PushStyleVarFloat (int32 k) v s)"
    by (simp add: pushThemeVars_def e i)
  also have "\<dots> = (n + 1 + int (length es), pushVars es (PushStyleVarFloat (int32 k) v s))"
    using Cons.prems by (intro Cons.IH) auto
  finally show ?case by (simp add: pushVars_def e)
qed

lemma Run_frame_theme:
  assumes "currentThemeObject s = Some theme"
    and "length (DAList.impl_of (colors theme)) < 2147483648"
    and "length (DAList.impl_of (vars theme)) < 2147483648"
  shows "Run_frame loopFunc s =
           (case loopFunc (pushVars (DAList.impl_of (vars theme)) (pushColors (DAList.impl_of (colors theme)) s)) of
              Inl e \<Rightarrow> Inl e
            | Inr s2 \<Rightarrow> Inr (popLayer (length (DAList.impl_of (colors theme))) (length (DAList.impl_of (vars theme))) s2))"
proof -
  have c: "pushThemeColors (DAList.impl_of (colors theme)) (0, s)
        = (int (length (DAList.impl_of (colors theme))), pushColors (DAList.impl_of (colors theme)) s)"
    using pushThemeColors_count [of 0 "DAList.impl_of (colors theme)" s] assms(2) by simp
  have v: "pushThemeVars (DAList.impl_of (vars theme)) (0, pushColors (DAList.impl_of (colors theme)) s)
        = (int (length (DAList.impl_of (vars theme))),
           pushVars (DAList.impl_of (vars theme)) (pushColors (DAList.impl_of (colors theme)) s))"
    using pushThemeVars_count [of 0 "DAList.impl_of (vars theme)"] assms(3) by simp
  let ?s1 = "pushVars (DAList.impl_of (vars theme)) (pushColors (DAList.impl_of (colors theme)) s)"
  show ?thesis
  proof (cases "loopFunc ?s1")
    case (Inl e)
    then show ?thesis unfolding Run_frame_def by (simp add: assms(1) c v)
  next
    case (Inr s2)
    show ?thesis unfolding Run_frame_def
      by (simp add: assms(1) c v Inr popLayer_def PopStyleVarV_def PopStyleColorV_def Let_def)
  qed
qed


lemma Build_StyleSetter_layer:
  assumes "length (DAList.impl_of cs) < 2147483648" and "length (DAList.impl_of vs) < 2147483648"
  shows "Build (StyleSetter cs vs ws) s =
           (case build_each ws (pushVars (DAList.impl_of vs) (pushColors (DAList.impl_of cs) s)) of
              Inl e \<Rightarrow> Inl e
            | Inr s3 \<Rightarrow> Inr (popLayer (length (DAList.impl_of cs)) (length (DAList.impl_of vs)) s3))"
proof -
  have "int32 (int (length (DAList.impl_of cs))) = int (length (DAList.impl_of cs))"
    "int32 (int (length (DAList.impl_of vs))) = int (length (DAList.impl_of vs))"
    using assms by (auto intro: int32_small)
  then show ?thesis
    by (simp add: Let_def popLayer_def PopStyleVarV_def PopStyleColorV_def split: sum.splits)
qed

lemma admissible_keepsStyle: "admissible w \<Longrightarrow> keepsStyle (Build w)"
  using Build_keeps_stacks(1) [of w] by (simp add: keepsStyle_def)

lemma Status_getState_stacks:
  "colorStack (snd (Status_getState w s)) = colorStack s"
  "varStack (snd (Status_getState w s)) = varStack s"
  by (simp_all add: Status_getState_def storeState_def Let_def split: option.splits ref.splits)

lemma AddMessage_stacks:
  "colorStack (AddMessage w m s) = colorStack s"
  "varStack (AddMessage w m s) = varStack s"
  using Status_getState_stacks [of w s]
  by (simp_all add: AddMessage_def split_beta Let_def)

lemma SetGlobalTheme_stacks:
  "colorStack (SetGlobalTheme th s) = colorStack s"
  "varStack (SetGlobalTheme th s) = varStack s"
  by (simp_all add: SetGlobalTheme_def LogStatus_def AddMessage_stacks split: option.splits)

text \<open>
  Claim C7.  In a frame that starts with a global theme set, the tree is built in the
  world in which every colour and every variable of the theme has been pushed exactly
  once (the keys of a map are distinct) on top of the stacks of the frame's start; once
  the tree is built, as many entries of each kind are popped as were pushed, and both
  stacks are what they were before the frame.  The counts are those of the pushes of
  this frame, so a change of theme by a callback during the frame does not unbalance it.
\<close>

theorem Run_frame_balanced:
  assumes "currentThemeObject s = Some theme"
    and "length (DAList.impl_of (colors theme)) < 2147483648"
    and "length (DAList.impl_of (vars theme)) < 2147483648"
    and "keepsStyle loopFunc"
    and "Run_frame loopFunc s = Inr s'"
  shows "\<exists>s1 s2. s1 = pushVars (DAList.impl_of (vars theme)) (pushColors (DAList.impl_of (colors theme)) s)
           \<and> colorStack s1 = rev (map (\<lambda>(k, v). (int32 k, v)) (DAList.impl_of (colors theme))) @ colorStack s
           \<and> varStack s1 = rev (map (\<lambda>(k, v). (int32 k, v)) (DAList.impl_of (vars theme))) @ varStack s
           \<and> distinct (map fst (DAList.impl_of (colors theme)))
           \<and> distinct (map fst (DAList.impl_of (vars theme)))
           \<and> loopFunc s1 = Inr s2
           \<and> length (colorStack s') = length (colorStack s2) - length (DAList.impl_of (colors theme))
           \<and> length (varStack s') = length (varStack s2) - length (DAList.impl_of (vars theme))
           \<and> colorStack s' = colorStack s
           \<and> varStack s' = varStack s"
proof -
  define s1 where "s1 = pushVars (DAList.impl_of (vars theme)) (pushColors (DAList.impl_of (colors theme)) s)"
  have c1: "colorStack s1 = rev (map (\<lambda>(k, v). (int32 k, v)) (DAList.impl_of (colors theme))) @ colorStack s"
    by (simp add: s1_def pushVars_colorStack pushColors_colorStack)
  have v1: "varStack s1 = rev (map (\<lambda>(k, v). (int32 k, v)) (DAList.impl_of (vars theme))) @ varStack s"
    by (simp add: s1_def pushVars_varStack pushColors_varStack)
  from assms(5) Run_frame_theme [OF assms(1-3), of loopFunc]
  obtain s2 where s2: "loopFunc s1 = Inr s2"
    and s': "s' = popLayer (length (DAList.impl_of (colors theme))) (length (DAList.impl_of (vars theme))) s2"
    by (auto simp: s1_def split: sum.splits)
  from assms(4) s2 have keep: "colorStack s2 = colorStack s1" "varStack s2 = varStack s1"
    by (simp_all add: keepsStyle_def)
  have "colorStack s' = colorStack s" "varStack s' = varStack s"
    by (simp_all add: s' popLayer_def keep c1 v1)
  moreover have "length (colorStack s') = length (colorStack s2) - length (DAList.impl_of (colors theme))"
    "length (varStack s') = length (varStack s2) - length (DAList.impl_of (vars theme))"
    by (simp_all add: s' popLayer_def)
  ultimately show ?thesis
    using s2 c1 v1 by (simp add: s1_def [symmetric])
qed


lemmas impl_of_simps = DAList.update.rep_eq DAList.empty.rep_eq

lemmas style_defs = pushColors_def pushVars_def int32_def
  PushStyleColorVec4_def PushStyleVarFloat_def PopStyleColorV_def PopStyleVarV_def

text \<open>
  An instance: the tree contains a button whose callback switches to a theme of another
  size in the middle of the frame, and a style setter.
\<close>

theorem Run_frame_balanced_witness:
  "currentThemeObject ((initialWorld ())\<lparr>currentThemeObject := Some exampleTheme\<rparr>) = Some exampleTheme
   \<and> Run_frame exampleLoop ((initialWorld ())\<lparr>currentThemeObject := Some exampleTheme\<rparr>)
       = Inr ((initialWorld ())\<lparr>currentThemeObject := Some exampleOtherTheme\<rparr>)
   \<and> colorStack ((initialWorld ())\<lparr>currentThemeObject := Some exampleOtherTheme\<rparr> :: (real, unit) world) = []"
proof -
  let ?s = "(initialWorld ())\<lparr>currentThemeObject := Some exampleTheme\<rparr> :: (real, unit) world"
  let ?s' = "(initialWorld ())\<lparr>currentThemeObject := Some exampleOtherTheme\<rparr> :: (real, unit) world"
  have t: "currentThemeObject ?s = Some exampleTheme" by simp
  have c: "length (DAList.impl_of (colors exampleTheme)) < 2147483648"
    and v: "length (DAList.impl_of (vars exampleTheme)) < 2147483648"
    by (simp_all add: exampleTheme_def impl_of_simps)
  have k: "keepsStyle exampleLoop"
    unfolding exampleLoop_def
    by (rule admissible_keepsStyle) (simp add: keepsStyle_def SetGlobalTheme_stacks impl_of_simps)
  have r: "Run_frame exampleLoop ?s = Inr ?s'"
    by (subst Run_frame_theme [OF t c v])
       (simp add: exampleLoop_def exampleTheme_def impl_of_simps
          style_defs popLayer_def SetGlobalTheme_def LogStatus_def initialWorld_def)
  from Run_frame_balanced [OF t c v k r] t r show ?thesis
    by (simp add: initialWorld_def)
qed

section \<open>The effective style is the innermost layer\<close>

lemma validIds_map: "validIds es \<Longrightarrow> map (\<lambda>(k, v). (int32 k, v)) es = es"
  by (induction es) (auto simp: validIds_def)

lemma map_of_rev_distinct: "distinct (map fst xs) \<Longrightarrow> map_of (rev xs) = map_of xs"
proof (induction xs)
  case Nil
  then show ?case by simp
next
  case (Cons x xs)
  obtain k v where x: "x = (k, v)" by (cases x)
  from Cons.prems have n: "map_of xs k = None"
    by (simp add: x map_of_eq_None_iff)
  from Cons have ih: "map_of (rev xs) = map_of xs" by simp
  show ?case
  proof
    fix j
    show "map_of (rev (x # xs)) j = map_of (x # xs) j"
      using n by (simp add: x ih map_add_def split: option.splits)
  qed
qed

lemma map_of_stackOf:
  "\<forall>l \<in> set layers. distinct (map fst l) \<Longrightarrow>
   map_of (stackOf layers @ st) idx = shadow layers idx (map_of st idx)"
proof (induction layers)
  case Nil
  then show ?case by (simp add: stackOf_def)
next
  case (Cons l layers)
  then have d: "distinct (map fst l)" by simp
  have r: "map_of (rev l) = map_of l"
    using d by (rule map_of_rev_distinct)
  from Cons have ih: "map_of (stackOf layers @ st) idx = shadow layers idx (map_of st idx)" by simp
  have e: "stackOf (l # layers) @ st = rev l @ (stackOf layers @ st)"
    by (simp add: stackOf_def)
  have "map_of (rev l @ (stackOf layers @ st)) idx =
          (case map_of l idx of Some v \<Rightarrow> Some v | None \<Rightarrow> map_of (stackOf layers @ st) idx)"
    unfolding map_of_append [of "rev l"] r by (simp add: map_add_def split: option.splits)
  then show ?case
    unfolding e ih by simp
qed


lemma wrapped_same_stacks:
  "colorStack s' = colorStack s \<Longrightarrow> varStack s' = varStack s \<Longrightarrow> wrapped ls s' v \<Longrightarrow> wrapped ls s v"
  by (simp add: wrapped_def)

lemma wrapped_layer:
  assumes ok: "layerOk (cs, vs)"
    and w: "wrapped ((cs, vs) # ls) (pushVars vs (pushColors cs s)) v"
  shows "wrapped ls s v"
proof -
  from w obtain inner where i: "fst v = inner @ (cs, vs) # ls" "list_all layerOk inner"
    "colorStack (snd v) = stackOf (map fst inner) @ colorStack (pushVars vs (pushColors cs s))"
    "varStack (snd v) = stackOf (map snd inner) @ varStack (pushVars vs (pushColors cs s))"
    by (auto simp: wrapped_def)
  from ok have m: "map (\<lambda>(k, v). (int32 k, v)) cs = cs" "map (\<lambda>(k, v). (int32 k, v)) vs = vs"
    by (simp_all add: layerOk_def validIds_map)
  have "fst v = (inner @ [(cs, vs)]) @ ls" using i(1) by simp
  moreover have "list_all layerOk (inner @ [(cs, vs)])" using i(2) ok by simp
  moreover have "colorStack (snd v) = stackOf (map fst (inner @ [(cs, vs)])) @ colorStack s"
    using i(3) by (simp add: pushVars_colorStack pushColors_colorStack m stackOf_def)
  moreover have "varStack (snd v) = stackOf (map snd (inner @ [(cs, vs)])) @ varStack s"
    using i(4) by (simp add: pushVars_varStack pushColors_varStack m stackOf_def)
  ultimately show ?thesis unfolding wrapped_def by blast
qed

lemma leafVisits_wrapped:
  "admissible w \<longrightarrow> idsValid w \<longrightarrow> (\<forall>v \<in> set (leafVisits w ls s). wrapped ls s v)"
  "admissibleList ws \<longrightarrow> idsValidList ws \<longrightarrow> (\<forall>v \<in> set (leafVisits_each ws ls s). wrapped ls s v)"
  "admissibleList ws \<longrightarrow> idsValidList ws \<longrightarrow> (\<forall>v \<in> set (leafVisits_columns ws ls s). wrapped ls s v)"
proof (induction w ls s and ws ls s and ws ls s rule: leafVisits_leafVisits_each_leafVisits_columns.induct)
  case (1 f ls s)
  show ?case by (simp add: wrapped_def stackOf_def)
next
  case (5 table_open ws ls s)
  then show ?case by simp
next
  case (6 cs vs ws ls s)
  show ?case
  proof (intro impI ballI)
    fix v
    assume a: "admissible (StyleSetter cs vs ws)" and i: "idsValid (StyleSetter cs vs ws)"
      and v: "v \<in> set (leafVisits (StyleSetter cs vs ws) ls s)"
    from i have ok: "layerOk (DAList.impl_of cs, DAList.impl_of vs)"
      by (simp add: layerOk_def)
    from a i v 6 have "wrapped ((DAList.impl_of cs, DAList.impl_of vs) # ls)
        (pushVars (DAList.impl_of vs) (pushColors (DAList.impl_of cs) s)) v"
      by simp
    with ok show "wrapped ls s v" by (rule wrapped_layer)
  qed
next
  case (9 w ws ls s)
  show ?case
  proof (intro impI ballI)
    fix v
    assume a: "admissibleList (Some w # ws)" and i: "idsValidList (Some w # ws)"
      and v: "v \<in> set (leafVisits_each (Some w # ws) ls s)"
    from v consider "v \<in> set (leafVisits w ls s)"
      | s' where "Build w s = Inr s'" "v \<in> set (leafVisits_each ws ls s')"
      by (cases "Build w s") auto
    then show "wrapped ls s v"
    proof cases
      case 1
      with a i "9.IH"(1) show ?thesis by simp
    next
      case 2
      from a Build_keeps_stacks(1) [of w s] 2(1)
      have k: "colorStack s' = colorStack s" "varStack s' = varStack s" by simp_all
      from a i "9.IH"(2) [OF 2(1)] 2(2) have "wrapped ls s' v" by simp
      with k show ?thesis by (rule wrapped_same_stacks)
    qed
  qed
next
  case (12 w ws ls s)
  show ?case
  proof (intro impI ballI)
    fix v
    assume a: "admissibleList (Some w # ws)" and i: "idsValidList (Some w # ws)"
      and v: "v \<in> set (leafVisits_columns (Some w # ws) ls s)"
    from v consider "v \<in> set (leafVisits w ls s)"
      | s' where "Build w s = Inr s'" "v \<in> set (leafVisits_columns ws ls s')"
      by (cases "Build w s") auto
    then show "wrapped ls s v"
    proof cases
      case 1
      with a i "12.IH"(1) show ?thesis by simp
    next
      case 2
      from a Build_keeps_stacks(1) [of w s] 2(1)
      have k: "colorStack s' = colorStack s" "varStack s' = varStack s" by simp_all
      from a i "12.IH"(2) [OF 2(1)] 2(2) have "wrapped ls s' v" by simp
      with k show ?thesis by (rule wrapped_same_stacks)
    qed
  qed
qed simp_all


lemma stackOf_append: "stackOf (a @ b) = stackOf a @ stackOf b"
  by (simp add: stackOf_def)

lemma layerOk_distinct:
  "list_all layerOk inner \<Longrightarrow> \<forall>l \<in> set (map fst inner). distinct (map fst l)"
  "list_all layerOk inner \<Longrightarrow> \<forall>l \<in> set (map snd inner). distinct (map fst l)"
  by (auto simp: list_all_iff layerOk_def)

text \<open>
  The trace.  Pushes and pops do not touch the host state, and \<^verbatim>\<open>Build\<close> of the traced
  tree does what \<^verbatim>\<open>Build\<close> of the tree does and logs, leaf by leaf, the worlds that
  \<open>leafVisits\<close> lists.
\<close>

lemma withHost_fields:
  "GlobalContext (withHost h s) = GlobalContext s"
  "counterObjs (withHost h s) = counterObjs s"
  "timerObjs (withHost h s) = timerObjs s"
  "statusObjs (withHost h s) = statusObjs s"
  "nextObj (withHost h s) = nextObj s"
  "globalStatus (withHost h s) = globalStatus s"
  "currentThemeObject (withHost h s) = currentThemeObject s"
  "colorStack (withHost h s) = colorStack s"
  "varStack (withHost h s) = varStack s"
  "now (withHost h s) = now s"
  "host (withHost h s) = h"
  by (simp_all add: withHost_def)

lemma withHost_host: "withHost (host s) s = s"
  by (simp add: withHost_def)

lemma withHost_withHost: "withHost h (withHost g s) = withHost h s"
  by (simp add: withHost_def)

lemma push_withHost:
  "PushStyleColorVec4 idx col (withHost h s) = withHost h (PushStyleColorVec4 idx col s)"
  "PushStyleVarFloat idx v (withHost h s) = withHost h (PushStyleVarFloat idx v s)"
  by (simp_all add: PushStyleColorVec4_def PushStyleVarFloat_def withHost_def)

lemma pushColors_withHost: "pushColors es (withHost h s) = withHost h (pushColors es s)"
  unfolding pushColors_def
  by (induction es arbitrary: s) (simp_all add: push_withHost split_beta)

lemma pushVars_withHost: "pushVars es (withHost h s) = withHost h (pushVars es s)"
  unfolding pushVars_def
  by (induction es arbitrary: s) (simp_all add: push_withHost split_beta)

lemma pushColors_host: "host (pushColors es s) = host s"
  unfolding pushColors_def
  by (induction es arbitrary: s) (auto simp: PushStyleColorVec4_def)

lemma pushVars_host: "host (pushVars es s) = host s"
  unfolding pushVars_def
  by (induction es arbitrary: s) (auto simp: PushStyleVarFloat_def)

lemma pops_withHost:
  "PopStyleVarV n (withHost h s) = withHost h (PopStyleVarV n s)"
  "PopStyleColorV n (withHost h s) = withHost h (PopStyleColorV n s)"
  "popLayer nc nv (withHost h s) = withHost h (popLayer nc nv s)"
  by (simp_all add: PopStyleVarV_def PopStyleColorV_def popLayer_def withHost_def)

lemma pops_host:
  "host (PopStyleVarV n s) = host s"
  "host (PopStyleColorV n s) = host s"
  "host (popLayer nc nv s) = host s"
  by (simp_all add: PopStyleVarV_def PopStyleColorV_def popLayer_def)

lemma length_tracedList: "length (tracedList ws) = length ws"
proof (induction ws)
  case Nil
  show ?case by simp
next
  case (Cons a ws)
  then show ?case by (cases a) simp_all
qed

lemma Build_traced:
  "Build (traced w) (withHost (host s, lg) s) =
     (case Build w s of
        Inl e \<Rightarrow> Inl e
      | Inr s' \<Rightarrow> Inr (withHost (host s', lg @ map snd (leafVisits w ls s)) s'))"
  "build_each (tracedList ws) (withHost (host s, lg) s) =
     (case build_each ws s of
        Inl e \<Rightarrow> Inl e
      | Inr s' \<Rightarrow> Inr (withHost (host s', lg @ map snd (leafVisits_each ws ls s)) s'))"
  "build_columns (tracedList ws) (withHost (host s, lg) s) =
     (case build_columns ws s of
        Inl e \<Rightarrow> Inl e
      | Inr s' \<Rightarrow> Inr (withHost (host s', lg @ map snd (leafVisits_columns ws ls s)) s'))"
proof (induction w s and ws s and ws s arbitrary: lg ls and lg ls and lg ls
    rule: Build_build_each_build_columns.induct)
  case (1 f s)
  show ?case
    by (simp add: traceLeaf_def withHost_fields withHost_withHost withHost_host split: sum.splits)
next
  case (2 ws s)
  show ?case using "2.IH" [of lg ls] by (simp split: sum.splits)
next
  case (3 ws s)
  show ?case using "3.IH" [of lg ls] by (simp split: sum.splits)
next
  case (4 ws s)
  show ?case using "4.IH" [of lg ls] by (simp split: sum.splits)
next
  case (5 table_open ws s)
  show ?case using "5.IH" [of lg ls]
    by (simp add: withHost_host length_tracedList split: sum.splits)
next
  case (6 cs vs ws s)
  let ?s2 = "pushVars (DAList.impl_of vs) (pushColors (DAList.impl_of cs) s)"
  have h: "host ?s2 = host s" by (simp add: pushVars_host pushColors_host)
  have e: "pushVars (DAList.impl_of vs) (pushColors (DAList.impl_of cs) (withHost (host s, lg) s))
         = withHost (host ?s2, lg) ?s2"
    by (simp add: pushVars_withHost pushColors_withHost h)
  note ih = "6.IH" [OF refl refl refl refl, of lg "(DAList.impl_of cs, DAList.impl_of vs) # ls"]
  show ?case
  proof (cases "build_each ws ?s2")
    case (Inl e')
    then show ?thesis using ih by (simp add: e Let_def)
  next
    case (Inr s3)
    then show ?thesis using ih
      by (simp add: e Let_def pops_withHost pops_host)
  qed
next
  case (7 s)
  show ?case by (simp add: withHost_host)
next
  case (8 ws s)
  show ?case using "8.IH" [of lg ls] by (simp split: sum.splits)
next
  case (9 w ws s)
  show ?case
  proof (cases "Build w s")
    case (Inl e)
    then show ?thesis using "9.IH"(1) [of lg ls] by simp
  next
    case (Inr s1)
    note a = "9.IH"(1) [of lg ls, unfolded Inr, simplified]
    note b = "9.IH"(2) [OF Inr, of "lg @ map snd (leafVisits w ls s)" ls]
    show ?thesis
      by (simp add: a b Inr split: sum.splits)
  qed
next
  case (10 s)
  show ?case by (simp add: withHost_host)
next
  case (11 ws s)
  show ?case by simp
next
  case (12 w ws s)
  show ?case
  proof (cases "Build w s")
    case (Inl e)
    then show ?thesis using "12.IH"(1) [of lg ls] by simp
  next
    case (Inr s1)
    note a = "12.IH"(1) [of lg ls, unfolded Inr, simplified]
    note b = "12.IH"(2) [OF Inr, of "lg @ map snd (leafVisits w ls s)" ls]
    show ?thesis
      by (simp add: a b Inr split: sum.splits)
  qed
qed

lemma leafVisits_layers:
  "Build w s = Inr s' \<Longrightarrow> map fst (leafVisits w ls s) = leafLayers w ls"
  "build_each ws s = Inr s' \<Longrightarrow> map fst (leafVisits_each ws ls s) = leafLayersList ws ls"
  "build_columns ws s = Inr s' \<Longrightarrow> map fst (leafVisits_columns ws ls s) = leafLayersList ws ls"
proof (induction w s and ws s and ws s arbitrary: ls s' and ls s' and ls s'
    rule: Build_build_each_build_columns.induct)
  case (5 table_open ws s)
  then show ?case by (cases ws) (auto split: if_splits)
next
  case (6 cs vs ws s)
  from "6.prems" obtain s3 where
    "build_each ws (pushVars (DAList.impl_of vs) (pushColors (DAList.impl_of cs) s)) = Inr s3"
    by (auto simp: Let_def split: sum.splits)
  from "6.IH" [OF refl refl refl refl this] show ?case by simp
next
  case (9 w ws s)
  from "9.prems" obtain s1 where s1: "Build w s = Inr s1" and r: "build_each ws s1 = Inr s'"
    by (auto split: sum.splits)
  from "9.IH"(1) [OF s1] "9.IH"(2) [OF s1 r] show ?case by (simp add: s1)
next
  case (12 w ws s)
  from "12.prems" obtain s1 where s1: "Build w s = Inr s1" and r: "build_columns ws s1 = Inr s'"
    by (auto split: sum.splits)
  from "12.IH"(1) [OF s1] "12.IH"(2) [OF s1 r] show ?case by (simp add: s1)
qed simp_all

text \<open>
  A frame returns when no leaf of the tree panics and no row has a \<^verbatim>\<open>nil\<close> child.
\<close>

lemma Run_frame_returns:
  assumes "panicFree w"
  shows "\<exists>s'. Run_frame (Build w) s = Inr s'"
proof -
  have "\<exists>s'. (case Build w s1 of Inl e \<Rightarrow> Inl e | Inr s2 \<Rightarrow> Inr (g s2)) = Inr s'" for s1 g
    using Build_returns(1) [OF assms, of s1] by auto
  then show ?thesis
    unfolding Run_frame_def Let_def by (simp add: split_beta)
qed

text \<open>
  Claim C8.  Take a frame with a global theme whose walk of the tree \<open>w\<close> returns, and
  run the same frame on the traced tree.  It returns the same world, and next to the host
  state the worlds in which the leaves of \<open>w\<close> were built, one for every leaf of \<open>w\<close>
  in the order of the walk.  In each of these worlds the effective value of every
  property is the value given by the innermost override layer enclosing the leaf that
  defines the property, then by the theme, then by what was effective before the frame.
  A leaf outside every override (its list of layers is empty) therefore sees the theme's
  value.
\<close>

theorem effective_style_innermost_wins:
  assumes "currentThemeObject s = Some theme"
    and "length (DAList.impl_of (colors theme)) < 2147483648"
    and "length (DAList.impl_of (vars theme)) < 2147483648"
    and "validIds (DAList.impl_of (colors theme))"
    and "validIds (DAList.impl_of (vars theme))"
    and "admissible w"
    and "idsValid w"
    and "Run_frame (Build w) s = Inr s'"
  shows "\<exists>ts. Run_frame (Build (traced w)) (withHost (host s, []) s) = Inr (withHost (host s', ts) s')
           \<and> list_all2
                (\<lambda>ls t. \<forall>idx.
                   effectiveColor t idx =
                     shadow (map fst ls @ [DAList.impl_of (colors theme)]) idx (effectiveColor s idx)
                 \<and> effectiveVar t idx =
                     shadow (map snd ls @ [DAList.impl_of (vars theme)]) idx (effectiveVar s idx))
                (leafLayers w []) ts"
proof -
  define s1 where "s1 = pushVars (DAList.impl_of (vars theme)) (pushColors (DAList.impl_of (colors theme)) s)"
  define nc where "nc = length (DAList.impl_of (colors theme))"
  define nv where "nv = length (DAList.impl_of (vars theme))"
  have h1: "host s1 = host s"
    by (simp add: s1_def pushVars_host pushColors_host)
  have c1: "colorStack s1 = stackOf [DAList.impl_of (colors theme)] @ colorStack s"
    by (simp add: s1_def pushVars_colorStack pushColors_colorStack validIds_map assms(4) stackOf_def)
  have v1: "varStack s1 = stackOf [DAList.impl_of (vars theme)] @ varStack s"
    by (simp add: s1_def pushVars_varStack pushColors_varStack validIds_map assms(5) stackOf_def)
  have r: "Run_frame (Build w) s =
             (case Build w s1 of Inl e \<Rightarrow> Inl e | Inr s2 \<Rightarrow> Inr (popLayer nc nv s2))"
    unfolding s1_def nc_def nv_def by (rule Run_frame_theme [OF assms(1-3)])
  from assms(8) obtain s2 where b: "Build w s1 = Inr s2" and s': "s' = popLayer nc nv s2"
    unfolding r by (cases "Build w s1") auto
  define V where "V = leafVisits w [] s1"
  have t: "currentThemeObject (withHost (host s, []) s) = Some theme"
    by (simp add: withHost_fields assms(1))
  have e: "pushVars (DAList.impl_of (vars theme))
             (pushColors (DAList.impl_of (colors theme)) (withHost (host s, []) s))
           = withHost (host s1, []) s1"
    by (simp add: s1_def pushVars_withHost pushColors_withHost pushVars_host pushColors_host)
  have bt: "Build (traced w) (withHost (host s1, []) s1) = Inr (withHost (host s2, map snd V) s2)"
    using Build_traced(1) [of w s1 "[]" "[]"] by (simp add: b V_def)
  have run: "Run_frame (Build (traced w)) (withHost (host s, []) s)
           = Inr (withHost (host s', map snd V) s')"
    unfolding Run_frame_theme [OF t assms(2,3)] e bt
    by (simp add: s' pops_withHost pops_host nc_def nv_def)
  have ll: "leafLayers w [] = map fst V"
    unfolding V_def using leafVisits_layers(1) [OF b] by simp
  have each: "effectiveColor (snd v) idx =
          shadow (map fst (fst v) @ [DAList.impl_of (colors theme)]) idx (effectiveColor s idx)
      \<and> effectiveVar (snd v) idx =
          shadow (map snd (fst v) @ [DAList.impl_of (vars theme)]) idx (effectiveVar s idx)"
    if v: "v \<in> set V" for v idx
  proof -
    from leafVisits_wrapped(1) [of w "[]" s1] assms(6,7) v have "wrapped [] s1 v"
      unfolding V_def by blast
    then have ok: "list_all layerOk (fst v)"
      and c: "colorStack (snd v) = stackOf (map fst (fst v)) @ colorStack s1"
      and va: "varStack (snd v) = stackOf (map snd (fst v)) @ varStack s1"
      by (auto simp: wrapped_def)
    have ct: "colorStack (snd v) = stackOf (map fst (fst v) @ [DAList.impl_of (colors theme)]) @ colorStack s"
      by (simp add: c c1 stackOf_append)
    have vt: "varStack (snd v) = stackOf (map snd (fst v) @ [DAList.impl_of (vars theme)]) @ varStack s"
      by (simp add: va v1 stackOf_append)
    have dc: "\<forall>l \<in> set (map fst (fst v) @ [DAList.impl_of (colors theme)]). distinct (map fst l)"
      using layerOk_distinct(1) [OF ok] by auto
    have dv: "\<forall>l \<in> set (map snd (fst v) @ [DAList.impl_of (vars theme)]). distinct (map fst l)"
      using layerOk_distinct(2) [OF ok] by auto
    show ?thesis
      unfolding effectiveColor_def effectiveVar_def ct vt
      using map_of_stackOf [OF dc] map_of_stackOf [OF dv] by simp
  qed
  have "list_all2
          (\<lambda>ls t. \<forall>idx.
             effectiveColor t idx =
               shadow (map fst ls @ [DAList.impl_of (colors theme)]) idx (effectiveColor s idx)
           \<and> effectiveVar t idx =
               shadow (map snd ls @ [DAList.impl_of (vars theme)]) idx (effectiveVar s idx))
          (leafLayers w []) (map snd V)"
    unfolding ll list_all2_map1 list_all2_map2
    by (rule list_all2_all_nthI) (simp_all add: each)
  with run show ?thesis by blast
qed

text \<open>
  The example of the specification: the theme gives property 21 the colour blue and
  variable 3 the value 5, a local override gives them red and 9; the widget inside the
  override (here in a row) is built in a world whose effective values are red and 9, its
  sibling outside in one whose effective values are blue and 5, and the two widgets
  themselves record just these colours in the host state.
\<close>

theorem effective_style_innermost_wins_witness:
  "currentThemeObject ((initialWorld [])\<lparr>currentThemeObject := Some exampleTheme\<rparr>) = Some exampleTheme
   \<and> admissible exampleTree \<and> idsValid exampleTree
   \<and> Run_frame (Build exampleTree) ((initialWorld [])\<lparr>currentThemeObject := Some exampleTheme\<rparr>)
       = Inr ((initialWorld [Some exampleRed, Some exampleBlue])\<lparr>currentThemeObject := Some exampleTheme\<rparr>)
   \<and> leafLayers exampleTree [] = [[([(21, exampleRed)], [(3, 9)])], []]
   \<and> map (\<lambda>t. effectiveColor t 21)
        (snd (host (projr (Run_frame (Build (traced exampleTree))
           (withHost ([], [])
              ((initialWorld [])\<lparr>currentThemeObject := Some exampleTheme\<rparr>
                 :: (real, Vec4 option list) world))))))
       = [Some exampleRed, Some exampleBlue]
   \<and> map (\<lambda>t. effectiveVar t 3)
        (snd (host (projr (Run_frame (Build (traced exampleTree))
           (withHost ([], [])
              ((initialWorld [])\<lparr>currentThemeObject := Some exampleTheme\<rparr>
                 :: (real, Vec4 option list) world))))))
       = [Some 9, Some 5]"
proof -
  let ?s = "(initialWorld [])\<lparr>currentThemeObject := Some exampleTheme\<rparr> :: (real, Vec4 option list) world"
  let ?s' = "(initialWorld [Some exampleRed, Some exampleBlue])\<lparr>currentThemeObject := Some exampleTheme\<rparr>
               :: (real, Vec4 option list) world"
  have t: "currentThemeObject ?s = Some exampleTheme" by simp
  have c: "length (DAList.impl_of (colors exampleTheme)) < 2147483648"
    and v: "length (DAList.impl_of (vars exampleTheme)) < 2147483648"
    and ic: "validIds (DAList.impl_of (colors exampleTheme))"
    and iv: "validIds (DAList.impl_of (vars exampleTheme))"
    by (simp_all add: exampleTheme_def impl_of_simps validIds_def int32_def)
  have a: "admissible exampleTree"
    by (simp add: exampleTree_def keepsStyle_def observeColor_def impl_of_simps)
  have i: "idsValid exampleTree"
    by (simp add: exampleTree_def impl_of_simps validIds_def int32_def)
  have r: "Run_frame (Build exampleTree) ?s = Inr ?s'"
    by (subst Run_frame_theme [OF t c v])
       (simp add: exampleTree_def exampleTheme_def impl_of_simps style_defs popLayer_def
          observeColor_def effectiveColor_def initialWorld_def)
  have l: "leafLayers exampleTree [] = [[([(21, exampleRed)], [(3, 9)])], []]"
    by (simp add: exampleTree_def impl_of_simps)
  have h: "host ?s = []" by (simp add: initialWorld_def)
  have b: "effectiveColor ?s 21 = None" by (simp add: effectiveColor_def initialWorld_def)
  from effective_style_innermost_wins [OF t c v ic iv a i r]
  obtain ts where run: "Run_frame (Build (traced exampleTree)) (withHost (host ?s, []) ?s)
        = Inr (withHost (host ?s', ts) ?s')"
    and all: "list_all2
                (\<lambda>ls t. \<forall>idx.
                   effectiveColor t idx =
                     shadow (map fst ls @ [DAList.impl_of (colors exampleTheme)]) idx (effectiveColor ?s idx)
                 \<and> effectiveVar t idx =
                     shadow (map snd ls @ [DAList.impl_of (vars exampleTheme)]) idx (effectiveVar ?s idx))
                (leafLayers exampleTree []) ts"
    by blast
  from all obtain t1 t2 where ts: "ts = [t1, t2]"
    and e1: "effectiveColor t1 21 =
        shadow ([[(21, exampleRed)]] @ [DAList.impl_of (colors exampleTheme)]) 21 (effectiveColor ?s 21)"
    and e2: "effectiveColor t2 21 =
        shadow ([] @ [DAList.impl_of (colors exampleTheme)]) 21 (effectiveColor ?s 21)"
    and f1: "effectiveVar t1 3 =
        shadow ([[(3, 9)]] @ [DAList.impl_of (vars exampleTheme)]) 3 (effectiveVar ?s 3)"
    and f2: "effectiveVar t2 3 =
        shadow ([] @ [DAList.impl_of (vars exampleTheme)]) 3 (effectiveVar ?s 3)"
    unfolding l by (auto simp: list_all2_Cons1)
  have m: "map (\<lambda>t. effectiveColor t 21) ts = [Some exampleRed, Some exampleBlue]"
    by (simp add: ts e1 e2 b exampleTheme_def impl_of_simps)
  have n: "map (\<lambda>t. effectiveVar t 3) ts = [Some 9, Some 5]"
    by (simp add: ts f1 f2 exampleTheme_def impl_of_simps)
  have "map (\<lambda>t. effectiveColor t 21)
          (snd (host (projr (Run_frame (Build (traced exampleTree)) (withHost ([], []) ?s)))))
        = [Some exampleRed, Some exampleBlue]"
    and "map (\<lambda>t. effectiveVar t 3)
          (snd (host (projr (Run_frame (Build (traced exampleTree)) (withHost ([], []) ?s)))))
        = [Some 9, Some 5]"
    using run m n by (simp_all add: h withHost_fields)
  with t a i r l show ?thesis by simp
qed

section \<open>The retained state store\<close>

lemma lookupState_storeState [simp]:
  "lookupState (storeState k r s) = (lookupState s)(k \<mapsto> r)"
  by (simp add: lookupState_def storeState_def)

lemma storeState_fields [simp]:
  "counterObjs (storeState k r s) = counterObjs s"
  "timerObjs (storeState k r s) = timerObjs s"
  "statusObjs (storeState k r s) = statusObjs s"
  "nextObj (storeState k r s) = nextObj s"
  "globalStatus (storeState k r s) = globalStatus s"
  "currentThemeObject (storeState k r s) = currentThemeObject s"
  "colorStack (storeState k r s) = colorStack s"
  "varStack (storeState k r s) = varStack s"
  "now (storeState k r s) = now s"
  "host (storeState k r s) = host s"
  by (simp_all add: storeState_def)

lemma lookupState_upd [simp]:
  "lookupState (s\<lparr>counterObjs := co\<rparr>) = lookupState s"
  "lookupState (s\<lparr>timerObjs := tob\<rparr>) = lookupState s"
  "lookupState (s\<lparr>statusObjs := so\<rparr>) = lookupState s"
  "lookupState (s\<lparr>nextObj := n\<rparr>) = lookupState s"
  "lookupState (s\<lparr>now := t\<rparr>) = lookupState s"
  "lookupState (s\<lparr>host := h\<rparr>) = lookupState s"
  by (simp_all add: lookupState_def)

lemma Counter_getState_found:
  "lookupState s (cid c) = Some (CounterRef a) \<Longrightarrow> Counter_getState c s = (a, s)"
  by (simp add: Counter_getState_def)

lemma Counter_getState_other:
  assumes "\<And>a. lookupState s (cid c) \<noteq> Some (CounterRef a)"
  shows "Counter_getState c s =
           (nextObj s,
            storeState (cid c) (CounterRef (nextObj s))
              (s\<lparr>counterObjs := (counterObjs s)(nextObj s := \<lparr>val = minValue c, step = 1\<rparr>),
                 nextObj := Suc (nextObj s)\<rparr>))"
  using assms by (simp add: Counter_getState_def Let_def split: option.splits ref.splits)

lemma Counter_getState_post:
  "Counter_getState c s = (a, s1) \<Longrightarrow> lookupState s1 (cid c) = Some (CounterRef a)"
  by (auto simp: Counter_getState_def Let_def split: option.splits ref.splits)

lemma Timer_getState_found:
  "lookupState s (tid t) = Some (TimerRef a) \<Longrightarrow> Timer_getState t s = (a, s)"
  by (simp add: Timer_getState_def)

lemma Timer_getState_other:
  assumes "\<And>a. lookupState s (tid t) \<noteq> Some (TimerRef a)"
  shows "Timer_getState t s =
           (nextObj s,
            storeState (tid t) (TimerRef (nextObj s))
              (s\<lparr>timerObjs := (timerObjs s)(nextObj s :=
                   \<lparr>startTime = now s, elapsedTime = 0, isRunning = False, isPaused = False\<rparr>),
                 nextObj := Suc (nextObj s)\<rparr>))"
  using assms by (simp add: Timer_getState_def Let_def split: option.splits ref.splits)

lemma Status_getState_found:
  "lookupState s (sid w) = Some (StatusRef a) \<Longrightarrow> Status_getState w s = (a, s)"
  by (simp add: Status_getState_def)

lemma Status_getState_other:
  assumes "\<And>a. lookupState s (sid w) \<noteq> Some (StatusRef a)"
  shows "Status_getState w s =
           (nextObj s,
            storeState (sid w) (StatusRef (nextObj s))
              (s\<lparr>statusObjs := (statusObjs s)(nextObj s :=
                   \<lparr>messages = [], timestamps = [], maxMessages = 100\<rparr>),
                 nextObj := Suc (nextObj s)\<rparr>))"
  using assms by (simp add: Status_getState_def Let_def split: option.splits ref.splits)

text \<open>
  Claim C2, as stated, fails.  A timer descriptor whose identifier holds a counter
  record gets no error from \<^verbatim>\<open>getState\<close>: the call returns a new record and the
  entry of the state map now points to it instead of the counter record.
\<close>

theorem getState_type_mismatch_counterexample:
  "lookupState exampleCollision ''x'' = Some (CounterRef 0)
   \<and> counterObjs exampleCollision 0 = \<lparr>val = 3, step = 1\<rparr>
   \<and> fst (Timer_getState \<lparr>tid = ''x'', tlabel = ''t''\<rparr> exampleCollision) = 2
   \<and> lookupState (snd (Timer_getState \<lparr>tid = ''x'', tlabel = ''t''\<rparr> exampleCollision)) ''x''
       = Some (TimerRef 2)"
  by (simp add: exampleCollision_def initialWorld_def Timer_getState_def lookupState_def
        storeState_def Let_def)

text \<open>
  Claim C2, amended.  When the state map holds, under the identifier of a counter (of a
  timer), an entry of another dynamic type, \<^verbatim>\<open>getState\<close> does not fail: it allocates
  a new default record (for a counter: the descriptor's minimum and step 1; for a timer:
  stopped, started now, nothing elapsed), stores it under the identifier in place of the
  existing entry and returns it.  The records of the other types are left as they are.
\<close>

theorem getState_type_mismatch_replaces:
  "(lookupState s (cid c) = Some r \<and> \<not> isCounterRef r \<longrightarrow>
      (\<exists>s1. Counter_getState c s = (nextObj s, s1)
         \<and> lookupState s1 = (lookupState s)(cid c \<mapsto> CounterRef (nextObj s))
         \<and> counterObjs s1 = (counterObjs s)(nextObj s := \<lparr>val = minValue c, step = 1\<rparr>)
         \<and> timerObjs s1 = timerObjs s \<and> statusObjs s1 = statusObjs s))
   \<and> (lookupState s (tid t) = Some r' \<and> \<not> isTimerRef r' \<longrightarrow>
      (\<exists>s1. Timer_getState t s = (nextObj s, s1)
         \<and> lookupState s1 = (lookupState s)(tid t \<mapsto> TimerRef (nextObj s))
         \<and> timerObjs s1 = (timerObjs s)(nextObj s :=
              \<lparr>startTime = now s, elapsedTime = 0, isRunning = False, isPaused = False\<rparr>)
         \<and> counterObjs s1 = counterObjs s \<and> statusObjs s1 = statusObjs s))"
proof (intro conjI impI)
  assume a: "lookupState s (cid c) = Some r \<and> \<not> isCounterRef r"
  then have "\<And>a. lookupState s (cid c) \<noteq> Some (CounterRef a)" by auto
  from Counter_getState_other [OF this]
  show "\<exists>s1. Counter_getState c s = (nextObj s, s1)
         \<and> lookupState s1 = (lookupState s)(cid c \<mapsto> CounterRef (nextObj s))
         \<and> counterObjs s1 = (counterObjs s)(nextObj s := \<lparr>val = minValue c, step = 1\<rparr>)
         \<and> timerObjs s1 = timerObjs s \<and> statusObjs s1 = statusObjs s"
    by simp
next
  assume a: "lookupState s (tid t) = Some r' \<and> \<not> isTimerRef r'"
  then have "\<And>a. lookupState s (tid t) \<noteq> Some (TimerRef a)" by auto
  from Timer_getState_other [OF this]
  show "\<exists>s1. Timer_getState t s = (nextObj s, s1)
         \<and> lookupState s1 = (lookupState s)(tid t \<mapsto> TimerRef (nextObj s))
         \<and> timerObjs s1 = (timerObjs s)(nextObj s :=
              \<lparr>startTime = now s, elapsedTime = 0, isRunning = False, isPaused = False\<rparr>)
         \<and> counterObjs s1 = counterObjs s \<and> statusObjs s1 = statusObjs s"
    by simp
qed


text \<open>
  An instance: a counter descriptor on the key that holds a timer record, and a timer
  descriptor on the key that holds a counter record.
\<close>

theorem getState_type_mismatch_replaces_witness:
  "lookupState exampleCollision ''y'' = Some (TimerRef 1) \<and> \<not> isCounterRef (TimerRef 1)
   \<and> lookupState exampleCollision ''x'' = Some (CounterRef 0) \<and> \<not> isTimerRef (CounterRef 0)
   \<and> fst (Counter_getState (Counter_Min 7 \<lparr>cid = ''y'', clabel = ''c'', minValue = 0, maxValue = 100, onChange = None\<rparr>)
          exampleCollision) = 2
   \<and> counterObjs (snd (Counter_getState (Counter_Min 7 \<lparr>cid = ''y'', clabel = ''c'', minValue = 0, maxValue = 100, onChange = None\<rparr>)
          exampleCollision)) 2 = \<lparr>val = 7, step = 1\<rparr>
   \<and> lookupState (snd (Timer_getState \<lparr>tid = ''x'', tlabel = ''t''\<rparr> exampleCollision)) ''x'' = Some (TimerRef 2)"
proof -
  let ?c = "Counter_Min 7 \<lparr>cid = ''y'', clabel = ''c'', minValue = 0, maxValue = 100, onChange = None\<rparr> :: (real, unit) CounterWidget"
  let ?t = "\<lparr>tid = ''x'', tlabel = ''t''\<rparr>"
  have h1: "lookupState exampleCollision (cid ?c) = Some (TimerRef 1) \<and> \<not> isCounterRef (TimerRef 1)"
    by (simp add: exampleCollision_def initialWorld_def lookupState_def Counter_Min_def)
  have h2: "lookupState exampleCollision (tid ?t) = Some (CounterRef 0) \<and> \<not> isTimerRef (CounterRef 0)"
    by (simp add: exampleCollision_def initialWorld_def lookupState_def)
  have n: "nextObj exampleCollision = 2"
    by (simp add: exampleCollision_def)
  from getState_type_mismatch_replaces [of exampleCollision ?c "TimerRef 1" ?t "CounterRef 0"] h1 h2
  show ?thesis
    by (auto simp: n Counter_Min_def)
qed




section \<open>The counter widget\<close>

lemma val_setVal [simp]: "val (counterObjs (setVal a v s) a) = v"
  by (simp add: setVal_def)

lemma Counter_Build_minus:
  assumes "Counter_getState c s = (a, s1)"
  shows "Counter_Build c clickMinus s =
           (if val (counterObjs s1 a) > minValue c
            then fireOnChange c (val (counterObjs s1 a) - 1) (setVal a (val (counterObjs s1 a) - 1) s1)
            else s1)"
  by (simp add: Counter_Build_def assms clickMinus_def Let_def)

lemma Counter_Build_plus:
  assumes "Counter_getState c s = (a, s1)"
  shows "Counter_Build c clickPlus s =
           (if val (counterObjs s1 a) < maxValue c
            then fireOnChange c (val (counterObjs s1 a) + 1) (setVal a (val (counterObjs s1 a) + 1) s1)
            else s1)"
  by (simp add: Counter_Build_def assms clickPlus_def Let_def)

lemma Counter_Build_idle:
  assumes "Counter_getState c s = (a, s1)"
  shows "Counter_Build c clickNone s = s1"
    and "Counter_Build c \<lparr>counter_table = False, minus_clicked = m, plus_clicked = p\<rparr> s = s1"
  by (simp_all add: Counter_Build_def assms clickNone_def)

lemma Counter_getState_starts_at_min:
  assumes "Counter_getState c s = (a, s1)" and "\<forall>b. lookupState s (cid c) \<noteq> Some (CounterRef b)"
  shows "val (counterObjs s1 a) = minValue c"
proof -
  from assms(2) have "\<And>b. lookupState s (cid c) \<noteq> Some (CounterRef b)" by simp
  from Counter_getState_other [OF this] assms(1) show ?thesis by auto
qed

text \<open>
  Claim C4.  Let \<open>a\<close> be the record that \<^verbatim>\<open>getState\<close> returns at the start of
  \<^verbatim>\<open>Build\<close>, and \<open>s1\<close> the world then.  A press of \<^verbatim>\<open>-\<close> stores the value minus one
  and then calls the callback, once, with the stored value, when the value is above the
  minimum; otherwise it changes nothing and calls nothing.  A press of \<^verbatim>\<open>+\<close> does the
  same with the value plus one when the value is below the maximum.  A frame without a
  press, or with the table closed, changes nothing.  A record that \<^verbatim>\<open>getState\<close> has
  just created starts at the minimum.
\<close>

theorem Counter_Build_clamps:
  assumes "Counter_getState c s = (a, s1)"
  shows "Counter_Build c clickMinus s =
           (if val (counterObjs s1 a) > minValue c
            then fireOnChange c (val (counterObjs s1 a) - 1) (setVal a (val (counterObjs s1 a) - 1) s1)
            else s1)
       \<and> Counter_Build c clickPlus s =
           (if val (counterObjs s1 a) < maxValue c
            then fireOnChange c (val (counterObjs s1 a) + 1) (setVal a (val (counterObjs s1 a) + 1) s1)
            else s1)
       \<and> Counter_Build c clickNone s = s1
       \<and> Counter_Build c \<lparr>counter_table = False, minus_clicked = m, plus_clicked = p\<rparr> s = s1
       \<and> fireOnChange c x s1 = (case onChange c of None \<Rightarrow> s1 | Some f \<Rightarrow> f x s1)
       \<and> ((\<forall>b. lookupState s (cid c) \<noteq> Some (CounterRef b)) \<longrightarrow> val (counterObjs s1 a) = minValue c)"
proof (intro conjI impI)
  show "Counter_Build c clickMinus s =
           (if val (counterObjs s1 a) > minValue c
            then fireOnChange c (val (counterObjs s1 a) - 1) (setVal a (val (counterObjs s1 a) - 1) s1)
            else s1)"
    by (rule Counter_Build_minus [OF assms])
  show "Counter_Build c clickPlus s =
           (if val (counterObjs s1 a) < maxValue c
            then fireOnChange c (val (counterObjs s1 a) + 1) (setVal a (val (counterObjs s1 a) + 1) s1)
            else s1)"
    by (rule Counter_Build_plus [OF assms])
  show "Counter_Build c clickNone s = s1"
    by (rule Counter_Build_idle(1) [OF assms])
  show "Counter_Build c \<lparr>counter_table = False, minus_clicked = m, plus_clicked = p\<rparr> s = s1"
    by (rule Counter_Build_idle(2) [OF assms])
  show "fireOnChange c x s1 = (case onChange c of None \<Rightarrow> s1 | Some f \<Rightarrow> f x s1)"
    by (simp add: fireOnChange_def)
next
  assume "\<forall>b. lookupState s (cid c) \<noteq> Some (CounterRef b)"
  with assms show "val (counterObjs s1 a) = minValue c"
    by (rule Counter_getState_starts_at_min)
qed

text \<open>
  Claim C10, as stated, fails in its last part.  \<^verbatim>\<open>SetValue\<close> begins with
  \<^verbatim>\<open>getState\<close>; when the state map has no counter record under the widget's
  identifier, a call with a value outside the bounds allocates a record, advances the
  allocator and writes the state map.
\<close>

theorem Counter_SetValue_out_of_range_counterexample:
  "\<not> (minValue exampleCounter \<le> 9 \<and> 9 \<le> maxValue exampleCounter)
   \<and> lookupState (initialWorld [] :: (real, int list) world) (cid exampleCounter) = None
   \<and> lookupState (Counter_SetValue exampleCounter 9 (initialWorld [])) (cid exampleCounter)
       = Some (CounterRef 0)
   \<and> nextObj (initialWorld [] :: (real, int list) world) = 0
   \<and> nextObj (Counter_SetValue exampleCounter 9 (initialWorld [])) = 1
   \<and> Counter_SetValue exampleCounter 9 (initialWorld []) \<noteq> initialWorld []"
proof -
  let ?s = "initialWorld [] :: (real, int list) world"
  have r: "\<not> (minValue exampleCounter \<le> 9 \<and> 9 \<le> maxValue exampleCounter)"
    by (simp add: exampleCounter_def Counter_def Counter_Min_def Counter_Max_def Counter_OnChange_def)
  have l0: "lookupState ?s (cid exampleCounter) = None"
    by (simp add: lookupState_def initialWorld_def)
  have l1: "lookupState (Counter_SetValue exampleCounter 9 ?s) (cid exampleCounter) = Some (CounterRef 0)"
    by (simp add: Counter_SetValue_def Counter_getState_def lookupState_def storeState_def
          initialWorld_def Let_def exampleCounter_def Counter_def Counter_Min_def Counter_Max_def
          Counter_OnChange_def)
  have n0: "nextObj ?s = 0"
    by (simp add: initialWorld_def)
  have n1: "nextObj (Counter_SetValue exampleCounter 9 ?s) = 1"
    by (simp add: Counter_SetValue_def Counter_getState_def lookupState_def storeState_def
          initialWorld_def Let_def exampleCounter_def Counter_def Counter_Min_def Counter_Max_def
          Counter_OnChange_def)
  from n0 n1 have d: "Counter_SetValue exampleCounter 9 ?s \<noteq> ?s"
    by auto
  from r l0 l1 n0 n1 d show ?thesis by simp
qed

text \<open>
  Claim C10, amended.  \<^verbatim>\<open>SetValue(v)\<close> with \<open>v\<close> within the bounds changes the \<open>val\<close>
  field of the widget's record and nothing else in the world that \<^verbatim>\<open>getState\<close>
  returns: the step is what it was, the result does not depend on the registered
  callback (it is the same for every callback \<open>g\<close>), and the host state is untouched.
  With \<open>v\<close> outside the bounds the result is the world that \<^verbatim>\<open>getState\<close> returns:
  the world unchanged when the state map holds the widget's counter record, and
  otherwise the world in which a new record with the descriptor's minimum and step 1
  has been allocated and stored under the widget's identifier.
\<close>

theorem Counter_SetValue_silent:
  assumes "Counter_getState c s = (a, s1)"
  shows "Counter_SetValue c v s =
           (if minValue c \<le> v \<and> v \<le> maxValue c
            then s1\<lparr>counterObjs := (counterObjs s1)(a := (counterObjs s1 a)\<lparr>val := v\<rparr>)\<rparr>
            else s1)
       \<and> step (counterObjs (Counter_SetValue c v s) a) = step (counterObjs s1 a)
       \<and> Counter_SetValue (c\<lparr>onChange := g\<rparr>) v s = Counter_SetValue c v s
       \<and> host (Counter_SetValue c v s) = host s
       \<and> (lookupState s (cid c) = Some (CounterRef a) \<and> \<not> (minValue c \<le> v \<and> v \<le> maxValue c) \<longrightarrow>
            Counter_SetValue c v s = s)
       \<and> ((\<forall>a'. lookupState s (cid c) \<noteq> Some (CounterRef a'))
              \<and> \<not> (minValue c \<le> v \<and> v \<le> maxValue c) \<longrightarrow>
            a = nextObj s
          \<and> Counter_SetValue c v s =
              storeState (cid c) (CounterRef (nextObj s))
                (s\<lparr>counterObjs := (counterObjs s)(nextObj s := \<lparr>val = minValue c, step = 1\<rparr>),
                   nextObj := Suc (nextObj s)\<rparr>))"
proof -
  have g: "Counter_getState (c\<lparr>onChange := g\<rparr>) s = Counter_getState c s"
    by (simp add: Counter_getState_def split: option.splits ref.splits)
  have h: "host s1 = host s"
    using assms by (auto simp: Counter_getState_def Let_def split: option.splits ref.splits)
  have f: "lookupState s (cid c) = Some (CounterRef a) \<longrightarrow> s1 = s"
    using assms by (auto simp: Counter_getState_found)
  have n: "(\<forall>a'. lookupState s (cid c) \<noteq> Some (CounterRef a')) \<longrightarrow>
             a = nextObj s \<and>
             s1 = storeState (cid c) (CounterRef (nextObj s))
                    (s\<lparr>counterObjs := (counterObjs s)(nextObj s := \<lparr>val = minValue c, step = 1\<rparr>),
                       nextObj := Suc (nextObj s)\<rparr>)"
    using assms Counter_getState_other [of s c] by auto
  have m: "Counter_SetValue c v s =
           (if minValue c \<le> v \<and> v \<le> maxValue c
            then s1\<lparr>counterObjs := (counterObjs s1)(a := (counterObjs s1 a)\<lparr>val := v\<rparr>)\<rparr>
            else s1)"
    by (simp add: Counter_SetValue_def assms setVal_def)
  show ?thesis
    using h f n by (simp add: m Counter_SetValue_def g assms setVal_def)
qed



text \<open>
  The guarded decrement and increment stay within the range of Go's \<^verbatim>\<open>int\<close>.
\<close>

lemma Counter_Build_int64:
  assumes "Counter_getState c s = (a, s1)" and "onChange c = None"
    and "inInt64 (minValue c)" and "inInt64 (maxValue c)" and "inInt64 (val (counterObjs s1 a))"
  shows "inInt64 (val (counterObjs (Counter_Build c inp s) a))"
  using assms(3-5)
  by (simp add: Counter_Build_def assms(1,2) fireOnChange_def Let_def inInt64_def)

lemma Counter_plus_step:
  assumes "lookupState s (cid c) = Some (CounterRef a)" and "onChange c = Some recordChange"
  shows "lookupState (Counter_Build c clickPlus s) = lookupState s"
    and "val (counterObjs (Counter_Build c clickPlus s) a) =
           (if val (counterObjs s a) < maxValue c then val (counterObjs s a) + 1 else val (counterObjs s a))"
    and "host (Counter_Build c clickPlus s) =
           (if val (counterObjs s a) < maxValue c then host s @ [val (counterObjs s a) + 1] else host s)"
  using Counter_Build_plus [OF Counter_getState_found [OF assms(1)]]
  by (simp_all add: fireOnChange_def assms(2) recordChange_def setVal_def lookupState_def)

lemma Counter_minus_step:
  assumes "lookupState s (cid c) = Some (CounterRef a)" and "onChange c = Some recordChange"
  shows "lookupState (Counter_Build c clickMinus s) = lookupState s"
    and "val (counterObjs (Counter_Build c clickMinus s) a) =
           (if val (counterObjs s a) > minValue c then val (counterObjs s a) - 1 else val (counterObjs s a))"
    and "host (Counter_Build c clickMinus s) =
           (if val (counterObjs s a) > minValue c then host s @ [val (counterObjs s a) - 1] else host s)"
  using Counter_Build_minus [OF Counter_getState_found [OF assms(1)]]
  by (simp_all add: fireOnChange_def assms(2) recordChange_def setVal_def lookupState_def)

lemma Counter_plus_clicks:
  assumes "lookupState s (cid c) = Some (CounterRef a)" and "onChange c = Some recordChange"
    and "val (counterObjs s a) \<le> maxValue c"
  shows "val (counterObjs (Counter_Builds c (replicate k clickPlus) s) a) =
           min (val (counterObjs s a) + int k) (maxValue c)
       \<and> host (Counter_Builds c (replicate k clickPlus) s) =
           host s @ [val (counterObjs s a) + 1 .. min (val (counterObjs s a) + int k) (maxValue c)]"
  using assms
proof (induction k arbitrary: s)
  case 0
  then show ?case by (simp add: Counter_Builds_def)
next
  case (Suc k)
  let ?s = "Counter_Build c clickPlus s"
  let ?v = "val (counterObjs s a)"
  note st = Counter_plus_step [OF Suc.prems(1,2)]
  have l: "lookupState ?s (cid c) = Some (CounterRef a)" using st(1) Suc.prems(1) by simp
  have b: "val (counterObjs ?s a) \<le> maxValue c" using st(2) Suc.prems(3) by simp
  note ih = Suc.IH [OF l Suc.prems(2) b]
  have e: "Counter_Builds c (replicate (Suc k) clickPlus) s = Counter_Builds c (replicate k clickPlus) ?s"
    by (simp add: Counter_Builds_def)
  show ?case
  proof (cases "?v < maxValue c")
    case True
    have u: "[?v + 1 .. min (?v + 1 + int k) (maxValue c)] = (?v + 1) # [?v + 1 + 1 .. min (?v + 1 + int k) (maxValue c)]"
      using True by (intro upto_rec1) simp
    show ?thesis unfolding e using ih True u by (simp add: st add.assoc)
  next
    case False
    with Suc.prems(3) have "?v = maxValue c" by simp
    then show ?thesis unfolding e using ih by (simp add: st)
  qed
qed


lemma Counter_minus_clicks:
  assumes "lookupState s (cid c) = Some (CounterRef a)" and "onChange c = Some recordChange"
    and "minValue c \<le> val (counterObjs s a)"
  shows "val (counterObjs (Counter_Builds c (replicate k clickMinus) s) a) =
           max (val (counterObjs s a) - int k) (minValue c)
       \<and> host (Counter_Builds c (replicate k clickMinus) s) =
           host s @ rev [max (val (counterObjs s a) - int k) (minValue c) .. val (counterObjs s a) - 1]"
  using assms
proof (induction k arbitrary: s)
  case 0
  then show ?case by (simp add: Counter_Builds_def)
next
  case (Suc k)
  let ?s = "Counter_Build c clickMinus s"
  let ?v = "val (counterObjs s a)"
  note st = Counter_minus_step [OF Suc.prems(1,2)]
  have l: "lookupState ?s (cid c) = Some (CounterRef a)" using st(1) Suc.prems(1) by simp
  have b: "minValue c \<le> val (counterObjs ?s a)" using st(2) Suc.prems(3) by simp
  note ih = Suc.IH [OF l Suc.prems(2) b]
  have e: "Counter_Builds c (replicate (Suc k) clickMinus) s = Counter_Builds c (replicate k clickMinus) ?s"
    by (simp add: Counter_Builds_def)
  show ?case
  proof (cases "?v > minValue c")
    case True
    have u: "[max (?v - 1 - int k) (minValue c) .. ?v - 1] = [max (?v - 1 - int k) (minValue c) .. ?v - 1 - 1] @ [?v - 1]"
      using True by (intro upto_rec2) simp
    show ?thesis unfolding e using ih True u by (simp add: st algebra_simps)
  next
    case False
    with Suc.prems(3) have "?v = minValue c" by simp
    then show ?thesis unfolding e using ih by (simp add: st)
  qed
qed

text \<open>
  The example of the specification: from 0, three presses of \<^verbatim>\<open>-\<close> leave the value at
  0 and the callback uncalled; five presses of \<^verbatim>\<open>+\<close> give 5 and the calls 1, 2, 3, 4,
  5; a sixth press changes nothing.
\<close>

theorem Counter_Build_clamps_witness:
  "fst (Counter_getState exampleCounter (initialWorld [])) = 0
   \<and> Counter_Build exampleCounter clickMinus (initialWorld [])
       = snd (Counter_getState exampleCounter (initialWorld []))
   \<and> host (Counter_Build exampleCounter clickMinus (initialWorld [])) = []
   \<and> val (counterObjs (Counter_Builds exampleCounter [clickMinus, clickMinus, clickMinus] (initialWorld [])) 0) = 0
   \<and> host (Counter_Builds exampleCounter [clickMinus, clickMinus, clickMinus] (initialWorld [])) = []
   \<and> val (counterObjs (Counter_Builds exampleCounter [clickPlus, clickPlus, clickPlus, clickPlus, clickPlus]
            (initialWorld [])) 0) = 5
   \<and> host (Counter_Builds exampleCounter [clickPlus, clickPlus, clickPlus, clickPlus, clickPlus]
            (initialWorld [])) = [1, 2, 3, 4, 5]
   \<and> val (counterObjs (Counter_Builds exampleCounter
            [clickPlus, clickPlus, clickPlus, clickPlus, clickPlus, clickPlus] (initialWorld [])) 0) = 5
   \<and> host (Counter_Builds exampleCounter
            [clickPlus, clickPlus, clickPlus, clickPlus, clickPlus, clickPlus] (initialWorld []))
       = [1, 2, 3, 4, 5]"
proof -
  let ?s = "initialWorld [] :: (real, int list) world"
  note ex = exampleCounter_def Counter_def Counter_Min_def Counter_Max_def Counter_OnChange_def
  have g0: "fst (Counter_getState exampleCounter ?s) = 0"
    by (simp add: Counter_getState_def lookupState_def initialWorld_def Let_def)
  have g: "Counter_getState exampleCounter ?s = (0, snd (Counter_getState exampleCounter ?s))"
    using g0 by (simp add: prod_eq_iff)
  have v: "val (counterObjs (snd (Counter_getState exampleCounter ?s)) 0) = 0"
    by (simp add: Counter_getState_def lookupState_def initialWorld_def Let_def ex)
  have m: "minValue exampleCounter = 0" by (simp add: ex)
  have h: "host (snd (Counter_getState exampleCounter ?s)) = []"
    by (simp add: Counter_getState_def lookupState_def initialWorld_def Let_def)
  from Counter_Build_clamps [OF g]
  have first: "Counter_Build exampleCounter clickMinus ?s = snd (Counter_getState exampleCounter ?s)"
    by (simp add: v m)
  have seqs:
    "val (counterObjs (Counter_Builds exampleCounter [clickMinus, clickMinus, clickMinus] ?s) 0) = 0"
    "host (Counter_Builds exampleCounter [clickMinus, clickMinus, clickMinus] ?s) = []"
    "val (counterObjs (Counter_Builds exampleCounter [clickPlus, clickPlus, clickPlus, clickPlus, clickPlus] ?s) 0) = 5"
    "host (Counter_Builds exampleCounter [clickPlus, clickPlus, clickPlus, clickPlus, clickPlus] ?s) = [1, 2, 3, 4, 5]"
    "val (counterObjs (Counter_Builds exampleCounter
            [clickPlus, clickPlus, clickPlus, clickPlus, clickPlus, clickPlus] ?s) 0) = 5"
    "host (Counter_Builds exampleCounter
            [clickPlus, clickPlus, clickPlus, clickPlus, clickPlus, clickPlus] ?s) = [1, 2, 3, 4, 5]"
    by (simp_all add: Counter_Builds_def Counter_Build_def clickMinus_def clickPlus_def ex
          Counter_getState_def lookupState_def storeState_def
          fireOnChange_def recordChange_def setVal_def initialWorld_def Let_def)
  from g0 first h seqs show ?thesis by simp
qed

text \<open>
  An instance, with the callback that records its calls: \<^verbatim>\<open>SetValue(3)\<close> stores 3 and
  records nothing, whereas a press of \<^verbatim>\<open>+\<close> records the new value; \<^verbatim>\<open>SetValue(9)\<close>,
  beyond the maximum 5, changes nothing once the record exists, and as the first access
  it creates the record with the minimum 0.
\<close>

theorem Counter_SetValue_silent_witness:
  "fst (Counter_getState exampleCounter (initialWorld [])) = 0
   \<and> val (counterObjs (Counter_SetValue exampleCounter 3 (initialWorld [])) 0) = 3
   \<and> step (counterObjs (Counter_SetValue exampleCounter 3 (initialWorld [])) 0) = 1
   \<and> host (Counter_SetValue exampleCounter 3 (initialWorld [])) = []
   \<and> host (Counter_Build exampleCounter clickPlus (initialWorld [])) = [1]
   \<and> Counter_SetValue exampleCounter 9 (Counter_SetValue exampleCounter 3 (initialWorld []))
       = Counter_SetValue exampleCounter 3 (initialWorld [])
   \<and> val (counterObjs (Counter_SetValue exampleCounter 9 (initialWorld [])) 0) = 0
   \<and> host (Counter_SetValue exampleCounter 9 (initialWorld [])) = []"
proof -
  let ?s = "initialWorld [] :: (real, int list) world"
  let ?s3 = "Counter_SetValue exampleCounter 3 ?s"
  have g: "Counter_getState exampleCounter ?s = (0, snd (Counter_getState exampleCounter ?s))"
    by (simp add: Counter_getState_def lookupState_def initialWorld_def Let_def)
  have g3: "Counter_getState exampleCounter ?s3 = (0, ?s3)"
    by (simp add: Counter_SetValue_def Counter_getState_def lookupState_def storeState_def
          setVal_def initialWorld_def Let_def exampleCounter_def Counter_def Counter_Min_def
          Counter_Max_def Counter_OnChange_def)
  have l3: "lookupState ?s3 (cid exampleCounter) = Some (CounterRef 0)"
    using Counter_getState_post [OF g3] .
  have r: "\<not> (minValue exampleCounter \<le> 9 \<and> 9 \<le> maxValue exampleCounter)"
    by (simp add: exampleCounter_def Counter_def Counter_Min_def Counter_Max_def Counter_OnChange_def)
  have p: "host (Counter_Build exampleCounter clickPlus ?s) = [1]"
    by (simp add: Counter_Build_def clickPlus_def exampleCounter_def Counter_def Counter_Min_def
          Counter_Max_def Counter_OnChange_def Counter_getState_def lookupState_def storeState_def
          fireOnChange_def recordChange_def setVal_def initialWorld_def Let_def)
  from Counter_SetValue_silent [OF g, of 3] Counter_SetValue_silent [OF g3, of 9]
    Counter_SetValue_silent [OF g, of 9] l3 r p g
  show ?thesis
    by (simp add: exampleCounter_def Counter_def Counter_Min_def Counter_Max_def Counter_OnChange_def
          Counter_getState_def lookupState_def storeState_def initialWorld_def Let_def)
qed

section \<open>The timer widget\<close>

lemma Timer_getState_post:
  "Timer_getState t s = (a, s1) \<Longrightarrow> lookupState s1 (tid t) = Some (TimerRef a)"
  by (auto simp: Timer_getState_def Let_def split: option.splits ref.splits)

lemma Timer_getState_now:
  "Timer_getState t s = (a, s1) \<Longrightarrow> now s1 = now s"
  by (auto simp: Timer_getState_def Let_def split: option.splits ref.splits)

lemma Timer_Build_found:
  assumes "lookupState s (tid t) = Some (TimerRef a)"
  shows "Timer_Build t inp s =
     (let st = timerObjs s a;
          st1 = (if isRunning st \<and> \<not> isPaused st
                 then st\<lparr>elapsedTime := now s - startTime st\<rparr> else st);
          st2 = (if timer_table inp then timerControls (now s) inp st1 else st1)
      in (elapsedTime st1, s\<lparr>timerObjs := (timerObjs s)(a := st2)\<rparr>))"
  by (simp add: Timer_Build_def Timer_getState_found [OF assms] Let_def)

lemma Timer_Build_running:
  assumes "Timer_getState t s = (a, s1)" and "isRunning (timerObjs s1 a)" and "\<not> isPaused (timerObjs s1 a)"
  shows "fst (Timer_Build t inp s) = now s - startTime (timerObjs s1 a)"
    and "timerObjs (snd (Timer_Build t pressNothing s)) a =
           (timerObjs s1 a)\<lparr>elapsedTime := now s - startTime (timerObjs s1 a)\<rparr>"
    and "timerObjs (snd (Timer_Build t pressFirst s)) a =
           (timerObjs s1 a)\<lparr>elapsedTime := now s - startTime (timerObjs s1 a), isPaused := True\<rparr>"
  using assms(2,3) Timer_getState_now [OF assms(1)]
  by (simp_all add: Timer_Build_def assms(1) Let_def timerControls_def pressNothing_def pressFirst_def)

lemma Timer_Build_paused:
  assumes "Timer_getState t s = (a, s1)" and "isRunning (timerObjs s1 a)" and "isPaused (timerObjs s1 a)"
  shows "fst (Timer_Build t inp s) = elapsedTime (timerObjs s1 a)"
    and "timerObjs (snd (Timer_Build t pressNothing s)) a = timerObjs s1 a"
    and "timerObjs (snd (Timer_Build t pressFirst s)) a =
           (timerObjs s1 a)\<lparr>startTime := now s - elapsedTime (timerObjs s1 a), isPaused := False\<rparr>"
  using assms(2,3) Timer_getState_now [OF assms(1)]
  by (simp_all add: Timer_Build_def assms(1) Let_def timerControls_def pressNothing_def pressFirst_def)

lemma Timer_Build_stopped:
  assumes "Timer_getState t s = (a, s1)" and "\<not> isRunning (timerObjs s1 a)"
  shows "fst (Timer_Build t inp s) = elapsedTime (timerObjs s1 a)"
    and "timerObjs (snd (Timer_Build t pressNothing s)) a = timerObjs s1 a"
    and "timerObjs (snd (Timer_Build t pressFirst s)) a =
           (timerObjs s1 a)\<lparr>startTime := now s - elapsedTime (timerObjs s1 a),
              isRunning := True, isPaused := False\<rparr>"
  using assms(2) Timer_getState_now [OF assms(1)]
  by (simp_all add: Timer_Build_def assms(1) Let_def timerControls_def pressNothing_def pressFirst_def)

lemma Timer_Build_lookup:
  "lookupState (snd (Timer_Build t inp s)) = lookupState (snd (Timer_getState t s))"
  by (simp add: Timer_Build_def split_beta Let_def)

lemma Timer_getState_next:
  assumes "Timer_getState t s = (a, s1)"
  shows "Timer_getState t ((snd (Timer_Build t inp s))\<lparr>now := tm\<rparr>)
           = (a, (snd (Timer_Build t inp s))\<lparr>now := tm\<rparr>)"
  by (rule Timer_getState_found)
     (simp add: Timer_Build_lookup assms Timer_getState_post [OF assms])

lemma Timer_scenario:
  assumes g: "Timer_getState t (s\<lparr>now := t0\<rparr>) = (a, s1)" and n: "\<not> isRunning (timerObjs s1 a)"
  shows "fst (Timer_frames t
            [(t0, pressFirst), (t1, pressFirst), (t2, pressFirst), (t3, pressNothing)] s)
         = [elapsedTime (timerObjs s1 a),
            t1 - (t0 - elapsedTime (timerObjs s1 a)),
            t1 - (t0 - elapsedTime (timerObjs s1 a)),
            t3 - (t2 - (t1 - (t0 - elapsedTime (timerObjs s1 a))))]"
proof -
  let ?e = "elapsedTime (timerObjs s1 a)"
  let ?b1 = "Timer_Build t pressFirst (s\<lparr>now := t0\<rparr>)"
  let ?b2 = "Timer_Build t pressFirst ((snd ?b1)\<lparr>now := t1\<rparr>)"
  let ?b3 = "Timer_Build t pressFirst ((snd ?b2)\<lparr>now := t2\<rparr>)"
  let ?b4 = "Timer_Build t pressNothing ((snd ?b3)\<lparr>now := t3\<rparr>)"
  have f1: "fst ?b1 = ?e"
    and c1: "timerObjs (snd ?b1) a =
       (timerObjs s1 a)\<lparr>startTime := t0 - ?e, isRunning := True, isPaused := False\<rparr>"
    using Timer_Build_stopped [OF g n] by simp_all
  note g2 = Timer_getState_next [OF g, where inp = pressFirst and tm = t1]
  have f2: "fst ?b2 = t1 - (t0 - ?e)"
    and c2: "timerObjs (snd ?b2) a =
       (timerObjs s1 a)\<lparr>startTime := t0 - ?e, isRunning := True, isPaused := True,
          elapsedTime := t1 - (t0 - ?e)\<rparr>"
    using Timer_Build_running [OF g2] by (simp_all add: c1)
  note g3 = Timer_getState_next [OF g2, where inp = pressFirst and tm = t2]
  have f3: "fst ?b3 = t1 - (t0 - ?e)"
    and c3: "timerObjs (snd ?b3) a =
       (timerObjs s1 a)\<lparr>startTime := t2 - (t1 - (t0 - ?e)), isRunning := True, isPaused := False,
          elapsedTime := t1 - (t0 - ?e)\<rparr>"
    using Timer_Build_paused [OF g3] by (simp_all add: c2)
  note g4 = Timer_getState_next [OF g3, where inp = pressFirst and tm = t3]
  have f4: "fst ?b4 = t3 - (t2 - (t1 - (t0 - ?e)))"
    using Timer_Build_running(1) [OF g4] by (simp add: c3)
  show ?thesis
    by (simp add: Timer_frames_def split_beta f1 f2 f3 f4)
qed

text \<open>
  In exact arithmetic the last frame shows the time accumulated before, plus the two
  stretches during which the timer ran.
\<close>

lemma Timer_scenario_exact:
  fixes t0 :: "'t::ab_group_add"
  shows "t3 - (t2 - (t1 - (t0 - e))) = e + (t1 - t0) + (t3 - t2)"
  by (simp add: algebra_simps)

text \<open>
  Claim C5.  Let \<open>a\<close> be the timer's record at the start of \<^verbatim>\<open>Build\<close>.  While the
  timer runs and is not paused, \<^verbatim>\<open>Build\<close> shows and stores the current time minus
  the start time, and a press of \<^verbatim>\<open>Pause\<close> sets the paused flag on top of that.  While
  it is paused, \<^verbatim>\<open>Build\<close> shows the stored elapsed time and leaves the record as it
  is, and a press of \<^verbatim>\<open>Resume\<close> sets the start time to the current time minus the
  elapsed time and clears the flag.  Hence, for a timer that is not running and has
  accumulated \<open>e\<close>: started at \<open>t0\<close>, paused at \<open>t1\<close>, resumed at \<open>t2\<close> and shown
  at \<open>t3\<close>, the four frames show \<open>e\<close>, then \<open>t1 - (t0 - e)\<close> twice, then
  \<open>t3 - (t2 - (t1 - (t0 - e)))\<close>, which is \<open>e + (t1 - t0) + (t3 - t2)\<close> when the
  subtractions are exact (lemma \<open>Timer_scenario_exact\<close>).  Nothing is assumed about the
  arithmetic of the times.
\<close>

theorem Timer_pause_resume:
  assumes "Timer_getState t s = (a, s1)"
  shows "(isRunning (timerObjs s1 a) \<and> \<not> isPaused (timerObjs s1 a) \<longrightarrow>
            fst (Timer_Build t inp s) = now s - startTime (timerObjs s1 a)
          \<and> timerObjs (snd (Timer_Build t pressNothing s)) a =
              (timerObjs s1 a)\<lparr>elapsedTime := now s - startTime (timerObjs s1 a)\<rparr>
          \<and> timerObjs (snd (Timer_Build t pressFirst s)) a =
              (timerObjs s1 a)\<lparr>elapsedTime := now s - startTime (timerObjs s1 a), isPaused := True\<rparr>)
       \<and> (isRunning (timerObjs s1 a) \<and> isPaused (timerObjs s1 a) \<longrightarrow>
            fst (Timer_Build t inp s) = elapsedTime (timerObjs s1 a)
          \<and> timerObjs (snd (Timer_Build t pressNothing s)) a = timerObjs s1 a
          \<and> timerObjs (snd (Timer_Build t pressFirst s)) a =
              (timerObjs s1 a)\<lparr>startTime := now s - elapsedTime (timerObjs s1 a), isPaused := False\<rparr>)
       \<and> (\<not> isRunning (timerObjs s1 a) \<and> now s = t0 \<longrightarrow>
            fst (Timer_frames t
                   [(t0, pressFirst), (t1, pressFirst), (t2, pressFirst), (t3, pressNothing)] s)
              = [elapsedTime (timerObjs s1 a),
                 t1 - (t0 - elapsedTime (timerObjs s1 a)),
                 t1 - (t0 - elapsedTime (timerObjs s1 a)),
                 t3 - (t2 - (t1 - (t0 - elapsedTime (timerObjs s1 a))))])"
proof (intro conjI impI)
  assume r: "isRunning (timerObjs s1 a) \<and> \<not> isPaused (timerObjs s1 a)"
  then have r1: "isRunning (timerObjs s1 a)" and r2: "\<not> isPaused (timerObjs s1 a)" by simp_all
  note ru = Timer_Build_running [OF assms r1 r2]
  show "fst (Timer_Build t inp s) = now s - startTime (timerObjs s1 a)" by (rule ru(1))
  show "timerObjs (snd (Timer_Build t pressNothing s)) a =
              (timerObjs s1 a)\<lparr>elapsedTime := now s - startTime (timerObjs s1 a)\<rparr>" by (rule ru(2))
  show "timerObjs (snd (Timer_Build t pressFirst s)) a =
              (timerObjs s1 a)\<lparr>elapsedTime := now s - startTime (timerObjs s1 a), isPaused := True\<rparr>"
    by (rule ru(3))
next
  assume p: "isRunning (timerObjs s1 a) \<and> isPaused (timerObjs s1 a)"
  then have p1: "isRunning (timerObjs s1 a)" and p2: "isPaused (timerObjs s1 a)" by simp_all
  note pa = Timer_Build_paused [OF assms p1 p2]
  show "fst (Timer_Build t inp s) = elapsedTime (timerObjs s1 a)" by (rule pa(1))
  show "timerObjs (snd (Timer_Build t pressNothing s)) a = timerObjs s1 a" by (rule pa(2))
  show "timerObjs (snd (Timer_Build t pressFirst s)) a =
              (timerObjs s1 a)\<lparr>startTime := now s - elapsedTime (timerObjs s1 a), isPaused := False\<rparr>"
    by (rule pa(3))
next
  assume n: "\<not> isRunning (timerObjs s1 a) \<and> now s = t0"
  then have e: "s\<lparr>now := t0\<rparr> = s" by auto
  from assms have g: "Timer_getState t (s\<lparr>now := t0\<rparr>) = (a, s1)" by (simp add: e)
  from n Timer_scenario [OF g]
  show "fst (Timer_frames t
                   [(t0, pressFirst), (t1, pressFirst), (t2, pressFirst), (t3, pressNothing)] s)
              = [elapsedTime (timerObjs s1 a),
                 t1 - (t0 - elapsedTime (timerObjs s1 a)),
                 t1 - (t0 - elapsedTime (timerObjs s1 a)),
                 t3 - (t2 - (t1 - (t0 - elapsedTime (timerObjs s1 a))))]"
    by simp
qed

text \<open>
  The example of the specification: start at 0, pause at 10, resume at 15, look at 20;
  the frames show 0, 10, 10 and 15.
\<close>

theorem Timer_pause_resume_witness:
  "fst (Timer_frames (Timer ''T'')
          [(0, pressFirst), (10, pressFirst), (15, pressFirst), (20, pressNothing)] (initialWorld ()))
     = [0, 10, 10, 15]
   \<and> fst (Timer_Build (Timer ''T'') pressNothing (exampleStarted\<lparr>now := 10\<rparr>)) = 10
   \<and> fst (Timer_Build (Timer ''T'') pressNothing (examplePaused\<lparr>now := 15\<rparr>)) = 10
   \<and> elapsedTime (timerObjs (snd (Timer_Build (Timer ''T'') pressNothing (examplePaused\<lparr>now := 15\<rparr>))) 0) = 10
   \<and> startTime (timerObjs (snd (Timer_Build (Timer ''T'') pressFirst (examplePaused\<lparr>now := 15\<rparr>))) 0) = 5"
proof -
  let ?T = "Timer ''T''"
  let ?s0 = "initialWorld () :: (real, unit) world"
  note ev = Timer_Build_def Timer_getState_def Timer_def lookupState_def storeState_def
    timerControls_def pressFirst_def pressNothing_def initialWorld_def Let_def
  have g0: "Timer_getState ?T ?s0 = (0, snd (Timer_getState ?T ?s0))"
    by (simp add: ev prod_eq_iff)
  have n0: "\<not> isRunning (timerObjs (snd (Timer_getState ?T ?s0)) 0) \<and> now ?s0 = 0"
    and e0: "elapsedTime (timerObjs (snd (Timer_getState ?T ?s0)) 0) = 0"
    by (simp_all add: ev)
  have g1: "Timer_getState ?T (exampleStarted\<lparr>now := 10\<rparr>) = (0, exampleStarted\<lparr>now := 10\<rparr>)"
    by (simp add: exampleStarted_def ev)
  have r1: "isRunning (timerObjs (exampleStarted\<lparr>now := 10\<rparr>) 0)
        \<and> \<not> isPaused (timerObjs (exampleStarted\<lparr>now := 10\<rparr>) 0)"
    and st1: "startTime (timerObjs (exampleStarted\<lparr>now := 10\<rparr>) 0) = 0"
    by (simp_all add: exampleStarted_def ev)
  have g2: "Timer_getState ?T (examplePaused\<lparr>now := 15\<rparr>) = (0, examplePaused\<lparr>now := 15\<rparr>)"
    by (simp add: examplePaused_def exampleStarted_def ev)
  have r2: "isRunning (timerObjs (examplePaused\<lparr>now := 15\<rparr>) 0)
        \<and> isPaused (timerObjs (examplePaused\<lparr>now := 15\<rparr>) 0)"
    and el2: "elapsedTime (timerObjs (examplePaused\<lparr>now := 15\<rparr>) 0) = 10"
    by (simp_all add: examplePaused_def exampleStarted_def ev)
  from Timer_pause_resume [OF g0, where ?t0.0 = 0 and ?t1.0 = 10 and ?t2.0 = 15 and ?t3.0 = 20] n0 e0
  have a: "fst (Timer_frames ?T
          [(0, pressFirst), (10, pressFirst), (15, pressFirst), (20, pressNothing)] ?s0) = [0, 10, 10, 15]"
    by simp
  from Timer_pause_resume [OF g1, where inp = pressNothing] r1 st1
  have b: "fst (Timer_Build ?T pressNothing (exampleStarted\<lparr>now := 10\<rparr>)) = 10"
    by simp
  from Timer_pause_resume [OF g2, where inp = pressNothing] r2 el2
  have c: "fst (Timer_Build ?T pressNothing (examplePaused\<lparr>now := 15\<rparr>)) = 10"
    "elapsedTime (timerObjs (snd (Timer_Build ?T pressNothing (examplePaused\<lparr>now := 15\<rparr>))) 0) = 10"
    "startTime (timerObjs (snd (Timer_Build ?T pressFirst (examplePaused\<lparr>now := 15\<rparr>))) 0) = 5"
    by simp_all
  from a b c show ?thesis by simp
qed

section \<open>The status display\<close>

lemma lastN_all: "int (length xs) \<le> n \<Longrightarrow> lastN n xs = xs"
  by (simp add: lastN_def)

lemma length_lastN: "0 \<le> n \<Longrightarrow> int (length (lastN n xs)) \<le> n"
  by (auto simp: lastN_def)

lemma lastN_lastN_append: "lastN n (lastN n xs @ ys) = lastN n (xs @ ys)"
proof (cases "length xs \<le> nat n")
  case True
  then show ?thesis by (simp add: lastN_def)
next
  case False
  then have l: "nat n < length xs" by simp
  have "lastN n (lastN n xs @ ys) = drop (length ys) (drop (length xs - nat n) xs @ ys)"
    using l by (simp add: lastN_def)
  also have "\<dots> = drop (length ys) (drop (length xs - nat n) (xs @ ys))"
    by simp
  also have "\<dots> = lastN n (xs @ ys)"
    using l by (simp add: lastN_def add.commute)
  finally show ?thesis .
qed

lemma lastN_snoc_full:
  "int (length xs) \<le> n \<Longrightarrow> n < int (length xs) + 1 \<Longrightarrow> lastN n (xs @ [x]) = drop 1 (xs @ [x])"
  by (simp add: lastN_def)


lemma addEntry_lastN:
  assumes "statusInv st"
  shows "messages (addEntry m tm st) = lastN (maxMessages st) (messages st @ [m])"
    and "timestamps (addEntry m tm st) = lastN (maxMessages st) (timestamps st @ [tm])"
    and "maxMessages (addEntry m tm st) = maxMessages st"
    and "statusInv (addEntry m tm st)"
proof -
  from assms have l: "length (timestamps st) = length (messages st)"
    and b: "int (length (messages st)) \<le> maxMessages st"
    by (simp_all add: statusInv_def)
  show "maxMessages (addEntry m tm st) = maxMessages st"
    by (simp add: addEntry_def Let_def)
  show "messages (addEntry m tm st) = lastN (maxMessages st) (messages st @ [m])"
  proof (cases "int (length (messages st)) + 1 > maxMessages st")
    case True
    with b lastN_snoc_full [of "messages st" "maxMessages st" m] show ?thesis
      by (simp add: addEntry_def Let_def)
  next
    case False
    then show ?thesis by (simp add: addEntry_def Let_def lastN_all)
  qed
  show "timestamps (addEntry m tm st) = lastN (maxMessages st) (timestamps st @ [tm])"
  proof (cases "int (length (messages st)) + 1 > maxMessages st")
    case True
    with b l lastN_snoc_full [of "timestamps st" "maxMessages st" tm] show ?thesis
      by (simp add: addEntry_def Let_def)
  next
    case False
    then show ?thesis using l by (simp add: addEntry_def Let_def lastN_all)
  qed
  show "statusInv (addEntry m tm st)"
    using l b by (auto simp: statusInv_def addEntry_def Let_def)
qed

lemma addEntry_step:
  "messages (addEntry m tm st) =
     (if int (length (messages st)) + 1 > maxMessages st
      then drop 1 (messages st @ [m]) else messages st @ [m])"
  "timestamps (addEntry m tm st) =
     (if int (length (messages st)) + 1 > maxMessages st
      then drop 1 (timestamps st @ [tm]) else timestamps st @ [tm])"
  by (simp_all add: addEntry_def Let_def)

lemma Status_getState_post:
  "Status_getState w s = (a, s1) \<Longrightarrow> lookupState s1 (sid w) = Some (StatusRef a)"
  by (auto simp: Status_getState_def Let_def split: option.splits ref.splits)

lemma AddMessage_found:
  assumes "lookupState s (sid w) = Some (StatusRef a)"
  shows "AddMessage w m s =
           s\<lparr>statusObjs := (statusObjs s)(a := addEntry m (now s) (statusObjs s a))\<rparr>"
  by (simp add: AddMessage_def Status_getState_found [OF assms])

lemma AddMessages_found:
  assumes "lookupState s (sid w) = Some (StatusRef a)" and "statusInv (statusObjs s a)"
  shows "lookupState (AddMessages w entries s) (sid w) = Some (StatusRef a)
       \<and> messages (statusObjs (AddMessages w entries s) a) =
           lastN (maxMessages (statusObjs s a)) (messages (statusObjs s a) @ map fst entries)
       \<and> timestamps (statusObjs (AddMessages w entries s) a) =
           lastN (maxMessages (statusObjs s a)) (timestamps (statusObjs s a) @ map snd entries)
       \<and> maxMessages (statusObjs (AddMessages w entries s) a) = maxMessages (statusObjs s a)
       \<and> statusInv (statusObjs (AddMessages w entries s) a)"
  using assms
proof (induction entries arbitrary: s)
  case Nil
  then show ?case by (simp add: AddMessages_def lastN_all statusInv_def)
next
  case (Cons e entries)
  obtain m tm where e: "e = (m, tm)" by (cases e)
  let ?s = "AddMessage w m (s\<lparr>now := tm\<rparr>)"
  let ?st = "statusObjs s a"
  have l0: "lookupState (s\<lparr>now := tm\<rparr>) (sid w) = Some (StatusRef a)" using Cons.prems(1) by simp
  have s1: "?s = (s\<lparr>now := tm\<rparr>)\<lparr>statusObjs := (statusObjs s)(a := addEntry m tm ?st)\<rparr>"
    using AddMessage_found [OF l0] by simp
  have l1: "lookupState ?s (sid w) = Some (StatusRef a)" by (simp add: s1 Cons.prems(1))
  have c1: "statusObjs ?s a = addEntry m tm ?st" by (simp add: s1)
  note ae = addEntry_lastN [OF Cons.prems(2), of m tm]
  have i1: "statusInv (statusObjs ?s a)" by (simp add: c1 ae(4))
  note ih = Cons.IH [OF l1 i1]
  have f: "AddMessages w (e # entries) s = AddMessages w entries ?s"
    by (simp add: AddMessages_def e)
  show ?case
    unfolding f using ih
    by (simp add: c1 ae(1,2,3) e lastN_lastN_append)
qed

lemma statusLines_shown:
  "n \<le> length ts \<Longrightarrow> n \<le> length msgs \<Longrightarrow>
   statusLines currentTime msgs ts n =
     Inr (map (\<lambda>(m, tm). (currentTime - tm, m))
            (filter (\<lambda>(m, tm). currentTime - tm < 10) (rev (take n (zip msgs ts)))))"
proof (induction n)
  case 0
  then show ?case by simp
next
  case (Suc n)
  then have t: "take (Suc n) (zip msgs ts) = take n (zip msgs ts) @ [(msgs ! n, ts ! n)]"
    by (simp add: take_Suc_conv_app_nth)
  from Suc show ?case by (simp add: t Let_def)
qed


lemma zip_lastN:
  "length xs = length ys \<Longrightarrow> zip (lastN n xs) (lastN n ys) = lastN n (zip xs ys)"
  by (simp add: lastN_def drop_zip)

lemma AddMessage_fresh:
  assumes "\<And>b. lookupState s (sid w) \<noteq> Some (StatusRef b)"
  shows "lookupState (AddMessage w m s) (sid w) = Some (StatusRef (nextObj s))"
    and "statusObjs (AddMessage w m s) (nextObj s) =
           \<lparr>messages = [m], timestamps = [now s], maxMessages = 100\<rparr>"
  by (simp_all add: AddMessage_def Status_getState_other [OF assms] addEntry_def Let_def)

lemma AddMessages_fresh:
  assumes "\<And>b. lookupState s (sid w) \<noteq> Some (StatusRef b)" and "entries \<noteq> []"
  shows "messages (statusObjs (AddMessages w entries s) (nextObj s)) = lastN 100 (map fst entries)"
    and "timestamps (statusObjs (AddMessages w entries s) (nextObj s)) = lastN 100 (map snd entries)"
    and "maxMessages (statusObjs (AddMessages w entries s) (nextObj s)) = 100"
    and "statusInv (statusObjs (AddMessages w entries s) (nextObj s))"
proof -
  from assms(2) obtain m tm rest where e: "entries = (m, tm) # rest"
    by (cases entries) auto
  let ?s = "AddMessage w m (s\<lparr>now := tm\<rparr>)"
  have n: "\<And>b. lookupState (s\<lparr>now := tm\<rparr>) (sid w) \<noteq> Some (StatusRef b)"
    using assms(1) by simp
  note fr = AddMessage_fresh [OF n, of m]
  have l: "lookupState ?s (sid w) = Some (StatusRef (nextObj s))" using fr(1) by simp
  have c: "statusObjs ?s (nextObj s) = \<lparr>messages = [m], timestamps = [tm], maxMessages = 100\<rparr>"
    using fr(2) by simp
  have i: "statusInv (statusObjs ?s (nextObj s))" by (simp add: c statusInv_def)
  have f: "AddMessages w entries s = AddMessages w rest ?s"
    by (simp add: AddMessages_def e)
  note am = AddMessages_found [OF l i, of rest]
  show "messages (statusObjs (AddMessages w entries s) (nextObj s)) = lastN 100 (map fst entries)"
    and "timestamps (statusObjs (AddMessages w entries s) (nextObj s)) = lastN 100 (map snd entries)"
    and "maxMessages (statusObjs (AddMessages w entries s) (nextObj s)) = 100"
    and "statusInv (statusObjs (AddMessages w entries s) (nextObj s))"
    unfolding f using am by (simp_all add: c e)
qed

lemma Status_Build_found:
  assumes "lookupState s (sid w) = Some (StatusRef a)" and "statusInv (statusObjs s a)"
  shows "Status_Build w s =
     Inr (map (\<lambda>(m, tm). (now s - tm, m))
            (filter (\<lambda>(m, tm). now s - tm < 10)
               (rev (zip (messages (statusObjs s a)) (timestamps (statusObjs s a))))), s)"
proof -
  from assms(2) have l: "length (timestamps (statusObjs s a)) = length (messages (statusObjs s a))"
    by (simp add: statusInv_def)
  show ?thesis
    by (simp add: Status_Build_def Status_getState_found [OF assms(1)] Let_def
          statusLines_shown l)
qed

text \<open>
  Claim C6.  \<^verbatim>\<open>AddMessage\<close> appends the message and the current time at the back and,
  when the count then exceeds \<open>maxMessages\<close>, drops the oldest entry from the front.
  Hence, for a record that satisfies its invariant, after any sequence of calls the
  record holds the last \<open>maxMessages\<close> of all messages (those it held, then those added),
  in insertion order, and their time stamps likewise.  A record that the first call has
  to create has room for 100 messages and ends up with the last 100 of those added.
\<close>

theorem AddMessage_keeps_last_entries:
  "(lookupState s (sid w) = Some (StatusRef a) \<and> statusInv (statusObjs s a) \<longrightarrow>
      messages (statusObjs (AddMessage w m s) a) =
        (if int (length (messages (statusObjs s a))) + 1 > maxMessages (statusObjs s a)
         then drop 1 (messages (statusObjs s a) @ [m]) else messages (statusObjs s a) @ [m])
    \<and> timestamps (statusObjs (AddMessage w m s) a) =
        (if int (length (messages (statusObjs s a))) + 1 > maxMessages (statusObjs s a)
         then drop 1 (timestamps (statusObjs s a) @ [now s]) else timestamps (statusObjs s a) @ [now s])
    \<and> messages (statusObjs (AddMessages w entries s) a) =
        lastN (maxMessages (statusObjs s a)) (messages (statusObjs s a) @ map fst entries)
    \<and> timestamps (statusObjs (AddMessages w entries s) a) =
        lastN (maxMessages (statusObjs s a)) (timestamps (statusObjs s a) @ map snd entries)
    \<and> maxMessages (statusObjs (AddMessages w entries s) a) = maxMessages (statusObjs s a))
   \<and> ((\<forall>b. lookupState s (sid w) \<noteq> Some (StatusRef b)) \<and> entries \<noteq> [] \<longrightarrow>
      messages (statusObjs (AddMessages w entries s) (nextObj s)) = lastN 100 (map fst entries)
    \<and> timestamps (statusObjs (AddMessages w entries s) (nextObj s)) = lastN 100 (map snd entries)
    \<and> maxMessages (statusObjs (AddMessages w entries s) (nextObj s)) = 100)"
proof (intro conjI impI)
  assume h: "lookupState s (sid w) = Some (StatusRef a) \<and> statusInv (statusObjs s a)"
  then have l: "lookupState s (sid w) = Some (StatusRef a)" and i: "statusInv (statusObjs s a)"
    by simp_all
  show "messages (statusObjs (AddMessage w m s) a) =
        (if int (length (messages (statusObjs s a))) + 1 > maxMessages (statusObjs s a)
         then drop 1 (messages (statusObjs s a) @ [m]) else messages (statusObjs s a) @ [m])"
    by (simp add: AddMessage_found [OF l] addEntry_step)
  show "timestamps (statusObjs (AddMessage w m s) a) =
        (if int (length (messages (statusObjs s a))) + 1 > maxMessages (statusObjs s a)
         then drop 1 (timestamps (statusObjs s a) @ [now s]) else timestamps (statusObjs s a) @ [now s])"
    by (simp add: AddMessage_found [OF l] addEntry_step)
  note am = AddMessages_found [OF l i, of entries]
  show "messages (statusObjs (AddMessages w entries s) a) =
        lastN (maxMessages (statusObjs s a)) (messages (statusObjs s a) @ map fst entries)"
    using am by simp
  show "timestamps (statusObjs (AddMessages w entries s) a) =
        lastN (maxMessages (statusObjs s a)) (timestamps (statusObjs s a) @ map snd entries)"
    using am by simp
  show "maxMessages (statusObjs (AddMessages w entries s) a) = maxMessages (statusObjs s a)"
    using am by simp
next
  assume h: "(\<forall>b. lookupState s (sid w) \<noteq> Some (StatusRef b)) \<and> entries \<noteq> []"
  then have n: "\<And>b. lookupState s (sid w) \<noteq> Some (StatusRef b)" and e: "entries \<noteq> []"
    by simp_all
  note af = AddMessages_fresh [OF n e]
  show "messages (statusObjs (AddMessages w entries s) (nextObj s)) = lastN 100 (map fst entries)"
    by (rule af(1))
  show "timestamps (statusObjs (AddMessages w entries s) (nextObj s)) = lastN 100 (map snd entries)"
    by (rule af(2))
  show "maxMessages (statusObjs (AddMessages w entries s) (nextObj s)) = 100"
    by (rule af(3))
qed

text \<open>
  Claim C9.  For a status record that satisfies the invariant (as many time stamps as
  messages, no more than \<open>maxMessages\<close> of them), \<^verbatim>\<open>AddMessage\<close> and any sequence of
  calls of it keep the invariant, and the pairs (message, time stamp) of the record are
  the last \<open>maxMessages\<close> of the pairs it held followed by the pairs (message, time of
  the call) added: entry \<open>i\<close> of the time stamps is the insertion time of entry \<open>i\<close> of
  the messages.  \<^verbatim>\<open>getState\<close> returns the record and changes nothing, and \<^verbatim>\<open>Build\<close>
  returns without a panic and changes nothing.  When there is no record yet,
  \<^verbatim>\<open>getState\<close> creates one that satisfies the invariant, and the same holds from there.
\<close>

theorem status_record_invariant:
  "(lookupState s (sid w) = Some (StatusRef a) \<and> statusInv (statusObjs s a) \<longrightarrow>
      statusInv (statusObjs (AddMessage w m s) a)
    \<and> statusInv (statusObjs (AddMessages w entries s) a)
    \<and> zip (messages (statusObjs (AddMessages w entries s) a))
          (timestamps (statusObjs (AddMessages w entries s) a)) =
        lastN (maxMessages (statusObjs s a))
          (zip (messages (statusObjs s a)) (timestamps (statusObjs s a)) @ entries)
    \<and> Status_getState w s = (a, s)
    \<and> (\<exists>shown. Status_Build w s = Inr (shown, s)))
   \<and> ((\<forall>b. lookupState s (sid w) \<noteq> Some (StatusRef b)) \<longrightarrow>
      fst (Status_getState w s) = nextObj s
    \<and> statusInv (statusObjs (snd (Status_getState w s)) (nextObj s))
    \<and> Status_Build w s = Inr ([], snd (Status_getState w s))
    \<and> statusInv (statusObjs (AddMessage w m s) (nextObj s))
    \<and> (entries \<noteq> [] \<longrightarrow>
         statusInv (statusObjs (AddMessages w entries s) (nextObj s))
       \<and> zip (messages (statusObjs (AddMessages w entries s) (nextObj s)))
             (timestamps (statusObjs (AddMessages w entries s) (nextObj s))) = lastN 100 entries))"
proof (intro conjI impI)
  assume h: "lookupState s (sid w) = Some (StatusRef a) \<and> statusInv (statusObjs s a)"
  then have l: "lookupState s (sid w) = Some (StatusRef a)" and i: "statusInv (statusObjs s a)"
    by simp_all
  from i have le: "length (messages (statusObjs s a)) = length (timestamps (statusObjs s a))"
    by (simp add: statusInv_def)
  show "statusInv (statusObjs (AddMessage w m s) a)"
    by (simp add: AddMessage_found [OF l] addEntry_lastN(4) [OF i])
  note am = AddMessages_found [OF l i, of entries]
  show "statusInv (statusObjs (AddMessages w entries s) a)" using am by simp
  have "zip (messages (statusObjs s a) @ map fst entries) (timestamps (statusObjs s a) @ map snd entries)
        = zip (messages (statusObjs s a)) (timestamps (statusObjs s a)) @ entries"
    using le by (simp add: zip_map_fst_snd)
  then show "zip (messages (statusObjs (AddMessages w entries s) a))
          (timestamps (statusObjs (AddMessages w entries s) a)) =
        lastN (maxMessages (statusObjs s a))
          (zip (messages (statusObjs s a)) (timestamps (statusObjs s a)) @ entries)"
    using am le by (simp add: zip_lastN)
  show "Status_getState w s = (a, s)" by (rule Status_getState_found [OF l])
  show "\<exists>shown. Status_Build w s = Inr (shown, s)"
    using Status_Build_found [OF l i] by blast
next
  assume h: "\<forall>b. lookupState s (sid w) \<noteq> Some (StatusRef b)"
  then have n: "\<And>b. lookupState s (sid w) \<noteq> Some (StatusRef b)" by simp
  note g = Status_getState_other [OF n]
  show "fst (Status_getState w s) = nextObj s" by (simp add: g)
  show "statusInv (statusObjs (snd (Status_getState w s)) (nextObj s))"
    by (simp add: g statusInv_def)
  show "Status_Build w s = Inr ([], snd (Status_getState w s))"
    by (simp add: Status_Build_def g)
  show "statusInv (statusObjs (AddMessage w m s) (nextObj s))"
    by (simp add: AddMessage_fresh(2) [OF n] statusInv_def)
next
  assume h: "\<forall>b. lookupState s (sid w) \<noteq> Some (StatusRef b)" and e: "entries \<noteq> []"
  then have n: "\<And>b. lookupState s (sid w) \<noteq> Some (StatusRef b)" by simp
  note af = AddMessages_fresh [OF n e]
  show "statusInv (statusObjs (AddMessages w entries s) (nextObj s))" by (rule af(4))
next
  assume h: "\<forall>b. lookupState s (sid w) \<noteq> Some (StatusRef b)" and e: "entries \<noteq> []"
  then have n: "\<And>b. lookupState s (sid w) \<noteq> Some (StatusRef b)" by simp
  note af = AddMessages_fresh [OF n e]
  show "zip (messages (statusObjs (AddMessages w entries s) (nextObj s)))
             (timestamps (statusObjs (AddMessages w entries s) (nextObj s))) = lastN 100 entries"
    by (simp add: af(1,2) zip_lastN zip_map_fst_snd)
qed


text \<open>
  The example of the specification: with room for three, adding A, B, C, D leaves
  B, C, D.
\<close>

theorem AddMessage_keeps_last_entries_witness:
  "lookupState exampleLog (sid StatusDisplay) = Some (StatusRef 0)
   \<and> statusInv (statusObjs exampleLog 0)
   \<and> messages (statusObjs (AddMessages StatusDisplay exampleEntries exampleLog) 0) = [''B'', ''C'', ''D'']
   \<and> timestamps (statusObjs (AddMessages StatusDisplay exampleEntries exampleLog) 0) = [2, 3, 4]
   \<and> messages (statusObjs (AddMessage StatusDisplay ''A'' exampleLog) 0) = [''A'']
   \<and> messages (statusObjs (AddMessages StatusDisplay exampleEntries (initialWorld ())) 0)
       = [''A'', ''B'', ''C'', ''D'']"
proof -
  have l: "lookupState exampleLog (sid StatusDisplay) = Some (StatusRef 0)"
    by (simp add: exampleLog_def lookupState_def StatusDisplay_def)
  have i: "statusInv (statusObjs exampleLog 0)"
    by (simp add: exampleLog_def statusInv_def)
  have c: "statusObjs exampleLog 0 = \<lparr>messages = [], timestamps = [], maxMessages = 3\<rparr>"
    by (simp add: exampleLog_def)
  have n: "\<forall>b. lookupState (initialWorld ()) (sid StatusDisplay) \<noteq> Some (StatusRef b)"
    by (simp add: initialWorld_def lookupState_def)
  have e: "exampleEntries \<noteq> []" by (simp add: exampleEntries_def)
  have z: "nextObj (initialWorld ()) = 0" by (simp add: initialWorld_def)
  from AddMessage_keeps_last_entries [of exampleLog StatusDisplay 0 "''A''" exampleEntries] l i
  have a: "messages (statusObjs (AddMessages StatusDisplay exampleEntries exampleLog) 0) = [''B'', ''C'', ''D'']"
    "timestamps (statusObjs (AddMessages StatusDisplay exampleEntries exampleLog) 0) = [2, 3, 4]"
    "messages (statusObjs (AddMessage StatusDisplay ''A'' exampleLog) 0) = [''A'']"
    by (simp_all add: c exampleEntries_def lastN_def)
  from AddMessage_keeps_last_entries [of "initialWorld ()" StatusDisplay 0 "''A''" exampleEntries] n e
  have b: "messages (statusObjs (AddMessages StatusDisplay exampleEntries (initialWorld ())) 0)
       = [''A'', ''B'', ''C'', ''D'']"
    by (simp add: z exampleEntries_def lastN_def)
  from l i a b show ?thesis by simp
qed

text \<open>
  The same example: the pairs kept are (B, 2), (C, 3), (D, 4), and at time 5 the display
  draws D, C, B, newest first, with the ages 1, 2, 3.
\<close>

theorem status_record_invariant_witness:
  "lookupState exampleLog (sid StatusDisplay) = Some (StatusRef 0)
   \<and> statusInv (statusObjs exampleLog 0)
   \<and> statusInv (statusObjs (AddMessages StatusDisplay exampleEntries exampleLog) 0)
   \<and> zip (messages (statusObjs (AddMessages StatusDisplay exampleEntries exampleLog) 0))
         (timestamps (statusObjs (AddMessages StatusDisplay exampleEntries exampleLog) 0))
       = [(''B'', 2), (''C'', 3), (''D'', 4)]
   \<and> Status_Build StatusDisplay ((AddMessages StatusDisplay exampleEntries exampleLog)\<lparr>now := 5\<rparr>)
       = Inr ([(1, ''D''), (2, ''C''), (3, ''B'')],
              (AddMessages StatusDisplay exampleEntries exampleLog)\<lparr>now := 5\<rparr>)
   \<and> statusInv (statusObjs (AddMessage StatusDisplay ''A'' (initialWorld ())) 0)
   \<and> Status_Build StatusDisplay (initialWorld ())
       = Inr ([], snd (Status_getState StatusDisplay (initialWorld ())))"
proof -
  let ?s = "AddMessages StatusDisplay exampleEntries exampleLog"
  have l: "lookupState exampleLog (sid StatusDisplay) = Some (StatusRef 0)"
    by (simp add: exampleLog_def lookupState_def StatusDisplay_def)
  have i: "statusInv (statusObjs exampleLog 0)"
    by (simp add: exampleLog_def statusInv_def)
  have c: "statusObjs exampleLog 0 = \<lparr>messages = [], timestamps = [], maxMessages = 3\<rparr>"
    by (simp add: exampleLog_def)
  have n: "\<forall>b. lookupState (initialWorld ()) (sid StatusDisplay) \<noteq> Some (StatusRef b)"
    by (simp add: initialWorld_def lookupState_def)
  have z: "nextObj (initialWorld ()) = 0" by (simp add: initialWorld_def)
  from status_record_invariant [of exampleLog StatusDisplay 0 "''A''" exampleEntries] l i
  have a: "statusInv (statusObjs ?s 0)"
    and b: "zip (messages (statusObjs ?s 0)) (timestamps (statusObjs ?s 0))
       = [(''B'', 2), (''C'', 3), (''D'', 4)]"
    by (simp_all add: c exampleEntries_def lastN_def)
  have l': "lookupState (?s\<lparr>now := 5\<rparr>) (sid StatusDisplay) = Some (StatusRef 0)"
    using AddMessages_found [OF l i, of exampleEntries] by simp
  have i': "statusInv (statusObjs (?s\<lparr>now := 5\<rparr>) 0)" using a by simp
  have d: "Status_Build StatusDisplay (?s\<lparr>now := 5\<rparr>)
       = Inr ([(1, ''D''), (2, ''C''), (3, ''B'')], ?s\<lparr>now := 5\<rparr>)"
    using Status_Build_found [OF l' i'] b by simp
  from status_record_invariant [of "initialWorld ()" StatusDisplay 0 "''A''" exampleEntries] n
  have f: "statusInv (statusObjs (AddMessage StatusDisplay ''A'' (initialWorld ())) 0)"
    "Status_Build StatusDisplay (initialWorld ())
       = Inr ([], snd (Status_getState StatusDisplay (initialWorld ())))"
    by (simp_all add: z)
  from l i a b d f show ?thesis by simp
qed

section \<open>The widgets of the source leave the style stacks alone\<close>

text \<open>
  The stateful widgets and the theme switch can stand at the leaves of an admissible
  tree: their \<^verbatim>\<open>Build\<close> keeps both style stacks (for the counter, provided its
  callback does).
\<close>

lemma Counter_getState_stacks:
  "colorStack (snd (Counter_getState c s)) = colorStack s"
  "varStack (snd (Counter_getState c s)) = varStack s"
  by (simp_all add: Counter_getState_def Let_def split: option.splits ref.splits)

lemma Timer_getState_stacks:
  "colorStack (snd (Timer_getState t s)) = colorStack s"
  "varStack (snd (Timer_getState t s)) = varStack s"
  by (simp_all add: Timer_getState_def Let_def split: option.splits ref.splits)

lemma setVal_stacks [simp]:
  "colorStack (setVal a v s) = colorStack s" "varStack (setVal a v s) = varStack s"
  by (simp_all add: setVal_def)

lemma Counter_Build_keepsStyle:
  assumes "\<And>f. onChange c = Some f \<Longrightarrow>
             (\<forall>v t. colorStack (f v t) = colorStack t \<and> varStack (f v t) = varStack t)"
  shows "keepsStyle (\<lambda>s. Inr (Counter_Build c inp s))"
proof -
  have f: "colorStack (fireOnChange c v t) = colorStack t \<and> varStack (fireOnChange c v t) = varStack t" for v t
    using assms by (cases "onChange c") (simp_all add: fireOnChange_def)
  have "colorStack (Counter_Build c inp s) = colorStack s \<and> varStack (Counter_Build c inp s) = varStack s" for s
    by (simp add: Counter_Build_def split_beta Let_def f Counter_getState_stacks)
  then show ?thesis by (simp add: keepsStyle_def)
qed

lemma Timer_Build_keepsStyle: "keepsStyle (\<lambda>s. Inr (snd (Timer_Build t inp s)))"
  by (simp add: keepsStyle_def Timer_Build_def split_beta Let_def Timer_getState_stacks)

lemma Status_Build_keepsStyle:
  "keepsStyle (\<lambda>s. case Status_Build w s of Inl e \<Rightarrow> Inl e | Inr (shown, s') \<Rightarrow> Inr s')"
  by (auto simp: keepsStyle_def Status_Build_def split_beta Let_def Status_getState_stacks
        split: sum.splits)

lemma SetGlobalTheme_keepsStyle: "keepsStyle (\<lambda>s. Inr (SetGlobalTheme theme s))"
  by (simp add: keepsStyle_def SetGlobalTheme_stacks)

end
